theory Spec2Isabelle
  imports Complex_Main "HOL-Library.Char_ord" "HOL-Library.List_Lexorder" "HOL-Library.Multiset"
begin

section \<open>Tables\<close>

text \<open>
  The pipeline of \<^verbatim>\<open>data.ipynb\<close> works on pandas tables. A table is modelled as the
  list of its columns, in column order, each with its name and its stored value type:
  \<^verbatim>\<open>float64\<close> (a missing entry, NaN, is \<open>None\<close>), \<^verbatim>\<open>int64\<close>, \<^verbatim>\<open>object\<close> (strings,
  a missing entry is \<open>None\<close>) and \<^verbatim>\<open>bool\<close>. Rows are positions \<open>0..n-1\<close>, as
  \<^verbatim>\<open>pd.read_csv\<close> numbers them. Floating-point numbers are modelled as real numbers.
  Every exception of the Python code is an \<open>Inl\<close> result.
\<close>

datatype error = ValueError | KeyError | TypeError

datatype column =
    FloatCol "real option list"
  | IntCol "int list"
  | ObjectCol "string option list"
  | BoolCol "bool list"

type_synonym frame = "(string \<times> column) list"

fun col_len :: "column \<Rightarrow> nat" where
  "col_len (FloatCol xs) = length xs"
| "col_len (IntCol xs) = length xs"
| "col_len (ObjectCol xs) = length xs"
| "col_len (BoolCol xs) = length xs"

text \<open>The number of rows of a table (\<^verbatim>\<open>len(df)\<close>); a table without columns has none here.\<close>

fun nrows :: "frame \<Rightarrow> nat" where
  "nrows [] = 0"
| "nrows ((n, c) # df) = col_len c"

text \<open>All columns of a table have the same number of rows.\<close>

definition aligned :: "nat \<Rightarrow> frame \<Rightarrow> bool" where
  "aligned n df = list_all (\<lambda>(name, c). col_len c = n) df"

text \<open>
  \<^verbatim>\<open>df[name]\<close>: the column of that name, \<^verbatim>\<open>KeyError\<close> when there is none.
  \<^verbatim>\<open>df[name] = values\<close>: replaces the column of that name, or appends a new last column;
  \<^verbatim>\<open>ValueError\<close> when the table has columns and the length differs from its row count.
\<close>

definition getitem :: "frame \<Rightarrow> string \<Rightarrow> error + column" where
  "getitem df name = (case map_of df name of None \<Rightarrow> Inl KeyError | Some c \<Rightarrow> Inr c)"

fun collect :: "(error + 'a) list \<Rightarrow> error + 'a list" where
  "collect [] = Inr []"
| "collect (r # rs) =
     (case r of Inl e \<Rightarrow> Inl e
      | Inr x \<Rightarrow> (case collect rs of Inl e \<Rightarrow> Inl e | Inr xs \<Rightarrow> Inr (x # xs)))"

definition getitems :: "frame \<Rightarrow> string list \<Rightarrow> error + column list" where
  "getitems df names = collect (map (getitem df) names)"

fun replace_col :: "string \<Rightarrow> column \<Rightarrow> frame \<Rightarrow> frame" where
  "replace_col name c [] = []"
| "replace_col name c ((n, d) # df) =
     (if n = name then (n, c) # replace_col name c df else (n, d) # replace_col name c df)"

definition assign :: "frame \<Rightarrow> string \<Rightarrow> column \<Rightarrow> frame" where
  "assign df name c =
     (if name \<in> set (map fst df) then replace_col name c df else df @ [(name, c)])"

definition setitem :: "frame \<Rightarrow> string \<Rightarrow> column \<Rightarrow> error + frame" where
  "setitem df name c =
     (if df \<noteq> [] \<and> col_len c \<noteq> nrows df then Inl ValueError else Inr (assign df name c))"

text \<open>
  What scikit-learn's input validation makes of a column handed to a numeric estimator:
  integers and booleans become floats; an \<^verbatim>\<open>object\<close> column read from a CSV file holds
  at least one value that is not a number, and the conversion raises \<^verbatim>\<open>ValueError\<close>.
\<close>

fun as_float :: "column \<Rightarrow> error + real option list" where
  "as_float (FloatCol xs) = Inr xs"
| "as_float (IntCol xs) = Inr (map (\<lambda>i. Some (real_of_int i)) xs)"
| "as_float (BoolCol xs) = Inr (map (\<lambda>b. Some (if b then 1 else 0)) xs)"
| "as_float (ObjectCol xs) = Inl ValueError"

fun present :: "'a option list \<Rightarrow> 'a list" where
  "present [] = []"
| "present (None # xs) = present xs"
| "present (Some x # xs) = x # present xs"

section \<open>The Normalizer: \<^verbatim>\<open>MinMaxScaler\<close>\<close>

text \<open>
  \<^verbatim>\<open>MinMaxScaler().fit_transform(X)\<close> with the default range \<open>(0, 1)\<close>, column by column.
  \<^verbatim>\<open>fit\<close> takes the minimum and maximum of the column's non-missing entries and stores
  \<^verbatim>\<open>scale_ = 1 / range\<close>, where a range of zero is replaced by one, and
  \<^verbatim>\<open>min_ = 0 - data_min * scale_\<close>; \<^verbatim>\<open>transform\<close> computes \<^verbatim>\<open>X * scale_ + min_\<close>.
  Missing entries stay missing; on a column with no entry at all every statistic is NaN,
  and so is every output.
\<close>

definition handle_zeros_in_scale :: "real \<Rightarrow> real" where
  "handle_zeros_in_scale r = (if r = 0 then 1 else r)"

definition minmax_fit :: "real option list \<Rightarrow> (real \<times> real) option" where
  "minmax_fit xs =
     (case present xs of
        [] \<Rightarrow> None
      | v # vs \<Rightarrow>
          (let data_min = fold min vs v;
               data_max = fold max vs v;
               data_range = data_max - data_min;
               scale = 1 / handle_zeros_in_scale data_range;
               min_shift = 0 - data_min * scale
           in Some (scale, min_shift)))"

definition minmax_transform :: "(real \<times> real) option \<Rightarrow> real option list \<Rightarrow> real option list" where
  "minmax_transform p xs =
     (case p of
        None \<Rightarrow> map (\<lambda>x. None) xs
      | Some (scale, min_shift) \<Rightarrow> map (map_option (\<lambda>x. x * scale + min_shift)) xs)"

definition minmax_fit_transform :: "real option list \<Rightarrow> real option list" where
  "minmax_fit_transform xs = minmax_transform (minmax_fit xs) xs"

text \<open>
  On a whole array: the validation refuses an array without columns or without rows, and
  one with a column that is not numeric; then every column is scaled on its own.
\<close>

definition MinMaxScaler_fit_transform :: "column list \<Rightarrow> error + real option list list" where
  "MinMaxScaler_fit_transform cols =
     (if cols = [] \<or> col_len (hd cols) = 0 then Inl ValueError
      else (case collect (map as_float cols) of
              Inl e \<Rightarrow> Inl e
            | Inr fs \<Rightarrow> Inr (map minmax_fit_transform fs)))"

section \<open>The Imputer: \<^verbatim>\<open>SimpleImputer\<close>\<close>

text \<open>
  \<^verbatim>\<open>select_dtypes(include=['int64', 'float64'])\<close> and \<^verbatim>\<open>select_dtypes(include=['object'])\<close>:
  the numeric columns, read as floats, and the categorical columns. A \<^verbatim>\<open>bool\<close> column is
  in neither selection.
\<close>

fun select_numeric :: "frame \<Rightarrow> (string \<times> real option list) list" where
  "select_numeric [] = []"
| "select_numeric ((n, FloatCol xs) # df) = (n, xs) # select_numeric df"
| "select_numeric ((n, IntCol xs) # df) = (n, map (\<lambda>i. Some (real_of_int i)) xs) # select_numeric df"
| "select_numeric ((n, ObjectCol xs) # df) = select_numeric df"
| "select_numeric ((n, BoolCol xs) # df) = select_numeric df"

fun select_object :: "frame \<Rightarrow> (string \<times> string option list) list" where
  "select_object [] = []"
| "select_object ((n, ObjectCol xs) # df) = (n, xs) # select_object df"
| "select_object ((n, FloatCol xs) # df) = select_object df"
| "select_object ((n, IntCol xs) # df) = select_object df"
| "select_object ((n, BoolCol xs) # df) = select_object df"

text \<open>
  The median as numpy computes it: the middle element of the sorted values, the mean of
  the two middle elements when their number is even.
\<close>

definition median :: "real list \<Rightarrow> real" where
  "median vs =
     (let s = sort vs; n = length s
      in if odd n then s ! (n div 2) else (s ! (n div 2 - 1) + s ! (n div 2)) / 2)"

text \<open>
  The most frequent value as scikit-learn computes it for an \<^verbatim>\<open>object\<close> column: the
  highest count of a \<^verbatim>\<open>Counter\<close>, and the smallest of the values that reach it.
\<close>

definition most_frequent :: "string list \<Rightarrow> string" where
  "most_frequent vs =
     (let most_frequent_count = fold max (map (count_list vs) vs) 0;
          ties = filter (\<lambda>v. count_list vs v = most_frequent_count) vs
      in fold min (tl ties) (hd ties))"

definition fillna :: "'a \<Rightarrow> 'a option \<Rightarrow> 'a" where
  "fillna m x = (case x of None \<Rightarrow> m | Some v \<Rightarrow> v)"

text \<open>
  One column through \<^verbatim>\<open>fit_transform\<close>: the statistic is taken over the non-missing
  entries and replaces the missing ones. A column with no entry at all has no statistic
  and is left out of the output (\<open>None\<close>).
\<close>

definition impute_median :: "real option list \<Rightarrow> real list option" where
  "impute_median xs =
     (case present xs of [] \<Rightarrow> None | v # vs \<Rightarrow> Some (map (fillna (median (v # vs))) xs))"

definition impute_most_frequent :: "string option list \<Rightarrow> string list option" where
  "impute_most_frequent xs =
     (case present xs of [] \<Rightarrow> None | v # vs \<Rightarrow> Some (map (fillna (most_frequent (v # vs))) xs))"

text \<open>
  The whole array: the validation refuses an array without columns or without rows; the
  output holds the columns that have a statistic.
\<close>

definition SimpleImputer_median :: "real option list list \<Rightarrow> error + real list list" where
  "SimpleImputer_median cols =
     (if cols = [] \<or> length (hd cols) = 0 then Inl ValueError
      else Inr (present (map impute_median cols)))"

definition SimpleImputer_most_frequent :: "string option list list \<Rightarrow> error + string list list" where
  "SimpleImputer_most_frequent cols =
     (if cols = [] \<or> length (hd cols) = 0 then Inl ValueError
      else Inr (present (map impute_most_frequent cols)))"

text \<open>
  \<^verbatim>\<open>df[names] = array\<close>: the array must have one column per name.
\<close>

definition setitems :: "frame \<Rightarrow> string list \<Rightarrow> column list \<Rightarrow> error + frame" where
  "setitems df names cols =
     (if length cols \<noteq> length names then Inl ValueError
      else Inr (fold (\<lambda>(name, c) d. assign d name c) (zip names cols) df))"

section \<open>The Encoder: \<^verbatim>\<open>get_dummies\<close> and \<^verbatim>\<open>LabelEncoder\<close>\<close>

text \<open>
  \<^verbatim>\<open>pd.get_dummies\<close> on a table of \<^verbatim>\<open>object\<close> columns: for every column, in column order,
  and every distinct non-missing value of it, in sorted order, one indicator column named
  \<^verbatim>\<open>column_value\<close>.
\<close>

definition categories :: "'a::linorder list \<Rightarrow> 'a list" where
  "categories vs = sort (remdups vs)"

definition dummies :: "string \<times> string option list \<Rightarrow> frame" where
  "dummies nc =
     (case nc of (name, xs) \<Rightarrow>
        map (\<lambda>v. (name @ ''_'' @ v, BoolCol (map (\<lambda>x. x = Some v) xs))) (categories (present xs)))"

definition get_dummies :: "(string \<times> string option list) list \<Rightarrow> frame" where
  "get_dummies cols = concat (map dummies cols)"

text \<open>\<^verbatim>\<open>Series.nunique()\<close>: the number of distinct non-missing values.\<close>

fun nunique :: "column \<Rightarrow> nat" where
  "nunique (FloatCol xs) = length (remdups (present xs))"
| "nunique (IntCol xs) = length (remdups xs)"
| "nunique (ObjectCol xs) = length (remdups (present xs))"
| "nunique (BoolCol xs) = length (remdups xs)"

text \<open>
  \<^verbatim>\<open>LabelEncoder().fit_transform\<close>: the position of every value among the sorted distinct
  values. Sorting fails on a column that mixes strings with missing entries.
\<close>

fun position :: "'a \<Rightarrow> 'a list \<Rightarrow> nat" where
  "position x [] = 0"
| "position x (y # ys) = (if x = y then 0 else Suc (position x ys))"

definition codes :: "'a::linorder list \<Rightarrow> int list" where
  "codes vs = map (\<lambda>v. int (position v (categories vs))) vs"

fun LabelEncoder_fit_transform :: "column \<Rightarrow> error + int list" where
  "LabelEncoder_fit_transform (ObjectCol xs) =
     (case those xs of None \<Rightarrow> Inl TypeError | Some vs \<Rightarrow> Inr (codes vs))"
| "LabelEncoder_fit_transform (IntCol xs) = Inr (codes xs)"
| "LabelEncoder_fit_transform (BoolCol xs) = Inr (codes xs)"
| "LabelEncoder_fit_transform (FloatCol xs) =
     (case those xs of None \<Rightarrow> Inl ValueError | Some vs \<Rightarrow> Inr (codes vs))"

text \<open>
  The loop \<^verbatim>\<open>for col in high_cardinality_columns: data[col + '_encoded'] = ...\<close>.
\<close>

fun encode_columns :: "frame \<Rightarrow> string list \<Rightarrow> error + frame" where
  "encode_columns data [] = Inr data"
| "encode_columns data (col # cols) =
     (case getitem data col of
        Inl e \<Rightarrow> Inl e
      | Inr c \<Rightarrow>
          (case LabelEncoder_fit_transform c of
             Inl e \<Rightarrow> Inl e
           | Inr ks \<Rightarrow>
               (case setitem data (col @ ''_encoded'') (IntCol ks) of
                  Inl e \<Rightarrow> Inl e
                | Inr data' \<Rightarrow> encode_columns data' cols)))"

section \<open>The Reducer: \<^verbatim>\<open>PCA\<close>\<close>

text \<open>
  The input validation of the estimators that take no missing value: every entry must be
  a finite number.
\<close>

definition finite_values :: "column \<Rightarrow> error + real list" where
  "finite_values c =
     (case as_float c of
        Inl e \<Rightarrow> Inl e
      | Inr xs \<Rightarrow> (case those xs of None \<Rightarrow> Inl ValueError | Some vs \<Rightarrow> Inr vs))"

definition rows_of :: "nat \<Rightarrow> real list list \<Rightarrow> real list list" where
  "rows_of n cols = map (\<lambda>i. map (\<lambda>c. c ! i) cols) [0..<n]"

text \<open>
  \<^verbatim>\<open>PCA(n_components=0.95)\<close>. What \<^verbatim>\<open>fit\<close> computes from the data, the column means and
  the retained principal axes, is scikit-learn's singular value decomposition and is a
  parameter \<open>pca\<close> of the model. The transformed table has one column per retained axis,
  named \<^verbatim>\<open>PC1\<close>, \<^verbatim>\<open>PC2\<close>, ...; its row \<open>i\<close> is the projection of the centred row \<open>i\<close> of the
  input on the axes.
\<close>

record pca_model =
  pca_mean :: "real list"
  pca_components :: "real list list"

definition dot :: "real list \<Rightarrow> real list \<Rightarrow> real" where
  "dot u v = sum_list (map (\<lambda>(a, b). a * b) (zip u v))"

definition project :: "pca_model \<Rightarrow> real list \<Rightarrow> real list" where
  "project m row =
     map (\<lambda>axis. dot axis (map (\<lambda>(x, mu). x - mu) (zip row (pca_mean m)))) (pca_components m)"

fun string_of_nat :: "nat \<Rightarrow> string" where
  "string_of_nat n =
     (if n < 10 then [''0123456789'' ! n]
      else string_of_nat (n div 10) @ [''0123456789'' ! (n mod 10)])"

declare string_of_nat.simps [simp del]

definition PCA_fit_transform :: "(real list list \<Rightarrow> pca_model) \<Rightarrow> frame \<Rightarrow> error + frame" where
  "PCA_fit_transform pca df =
     (if df = [] \<or> nrows df = 0 then Inl ValueError
      else (case collect (map (finite_values \<circ> snd) df) of
              Inl e \<Rightarrow> Inl e
            | Inr cols \<Rightarrow>
                (let X = rows_of (nrows df) cols;
                     m = pca X;
                     Z = map (project m) X
                 in Inr (map (\<lambda>k. (''PC'' @ string_of_nat (k + 1), FloatCol (map (\<lambda>z. Some (z ! k)) Z)))
                           [0..<length (pca_components m)]))))"

section \<open>\<^verbatim>\<open>preprocess_data\<close>\<close>

text \<open>
  The function mutates the raw table \<open>data\<close> in place (imputed columns, added
  \<^verbatim>\<open>_encoded\<close> columns) and builds the processed table; the model returns both.
\<close>

definition numeric_columns :: "frame \<Rightarrow> string list" where
  "numeric_columns data = map fst (select_numeric data)"

definition categorical_columns :: "frame \<Rightarrow> string list" where
  "categorical_columns data = map fst (select_object data)"

definition impute_numeric :: "frame \<Rightarrow> error + frame" where
  "impute_numeric data =
     (case SimpleImputer_median (map snd (select_numeric data)) of
        Inl e \<Rightarrow> Inl e
      | Inr filled \<Rightarrow> setitems data (numeric_columns data) (map (\<lambda>vs. FloatCol (map Some vs)) filled))"

definition impute_categorical :: "frame \<Rightarrow> error + frame" where
  "impute_categorical data =
     (case SimpleImputer_most_frequent (map snd (select_object data)) of
        Inl e \<Rightarrow> Inl e
      | Inr filled \<Rightarrow> setitems data (categorical_columns data) (map (\<lambda>vs. ObjectCol (map Some vs)) filled))"

definition high_cardinality_columns :: "frame \<Rightarrow> string list \<Rightarrow> string list" where
  "high_cardinality_columns data cats =
     filter (\<lambda>col. (case map_of data col of None \<Rightarrow> False | Some c \<Rightarrow> nunique c > 10)) cats"

text \<open>The three parts that \<^verbatim>\<open>pd.concat(..., axis=1)\<close> puts side by side.\<close>

definition combine_features :: "frame \<Rightarrow> string list \<Rightarrow> frame \<Rightarrow> string list \<Rightarrow> error + frame" where
  "combine_features data nums categorical_encoded high =
     (case getitems data nums of
        Inl e \<Rightarrow> Inl e
      | Inr ncols \<Rightarrow>
          (case MinMaxScaler_fit_transform ncols of
             Inl e \<Rightarrow> Inl e
           | Inr numeric_scaled \<Rightarrow>
               (case getitems data (map (\<lambda>col. col @ ''_encoded'') high) of
                  Inl e \<Rightarrow> Inl e
                | Inr ecols \<Rightarrow>
                    Inr (zip nums (map FloatCol numeric_scaled)
                         @ categorical_encoded
                         @ zip (map (\<lambda>col. col @ ''_encoded'') high) ecols))))"

text \<open>
  The statements of \<^verbatim>\<open>preprocess_data\<close> up to \<^verbatim>\<open>pd.concat\<close>: the mutated raw table and
  the combined feature matrix that is handed to the Reducer. The column names of a table
  read by \<^verbatim>\<open>pd.read_csv\<close> are distinct, and after the imputation the categorical columns
  are exactly the \<^verbatim>\<open>object\<close> columns, so \<^verbatim>\<open>data[categorical_columns]\<close> is the selection
  by type. \<^verbatim>\<open>pd.get_dummies\<close> receives all of them; the columns with more than ten
  distinct values are integer-coded in addition.
\<close>

definition processed_features :: "frame \<Rightarrow> error + frame \<times> frame" where
  "processed_features data =
     (let nums = numeric_columns data; cats = categorical_columns data
      in case impute_numeric data of
           Inl e \<Rightarrow> Inl e
         | Inr data1 \<Rightarrow>
             (case impute_categorical data1 of
                Inl e \<Rightarrow> Inl e
              | Inr data2 \<Rightarrow>
                  (let categorical_encoded = get_dummies (select_object data2);
                       high = high_cardinality_columns data2 cats
                   in case encode_columns data2 high of
                        Inl e \<Rightarrow> Inl e
                      | Inr data3 \<Rightarrow>
                          (case combine_features data3 nums categorical_encoded high of
                             Inl e \<Rightarrow> Inl e
                           | Inr combined \<Rightarrow> Inr (data3, combined)))))"

definition preprocess_data :: "(real list list \<Rightarrow> pca_model) \<Rightarrow> frame \<Rightarrow> error + frame \<times> frame" where
  "preprocess_data pca data =
     (case processed_features data of
        Inl e \<Rightarrow> Inl e
      | Inr (data3, combined) \<Rightarrow>
          (case PCA_fit_transform pca combined of
             Inl e \<Rightarrow> Inl e
           | Inr processed_data \<Rightarrow> Inr (data3, processed_data)))"

section \<open>The Score Calculators\<close>

text \<open>
  \<^verbatim>\<open>col.lower()\<close> on the ASCII letters (a \<open>char\<close> is a byte; other bytes are left as they
  are) and the substring test \<^verbatim>\<open>sub in s\<close>.
\<close>

definition lower_char :: "char \<Rightarrow> char" where
  "lower_char c =
     (case map_of (zip ''ABCDEFGHIJKLMNOPQRSTUVWXYZ'' ''abcdefghijklmnopqrstuvwxyz'') c of
        None \<Rightarrow> c
      | Some d \<Rightarrow> d)"

definition lower :: "string \<Rightarrow> string" where
  "lower s = map lower_char s"

fun contains :: "string \<Rightarrow> string \<Rightarrow> bool" where
  "contains sub [] = (sub = [])"
| "contains sub (c # cs) = (take (length sub) (c # cs) = sub \<or> contains sub cs)"

definition transaction_cols :: "frame \<Rightarrow> string list" where
  "transaction_cols data = filter (\<lambda>col. contains ''transaction'' (lower col)) (map fst data)"

definition savings_cols :: "frame \<Rightarrow> string list" where
  "savings_cols data = filter (\<lambda>col. contains ''savings'' (lower col)) (map fst data)"

text \<open>
  \<^verbatim>\<open>array.mean(axis=1)\<close> at row \<open>i\<close>, and a weighted sum of two floats; a NaN operand
  gives NaN.
\<close>

definition row_mean :: "real option list list \<Rightarrow> nat \<Rightarrow> real option" where
  "row_mean cols i =
     (case those (map (\<lambda>c. c ! i) cols) of
        None \<Rightarrow> None
      | Some vs \<Rightarrow> Some (sum_list vs / real (length vs)))"

definition weighted :: "real \<Rightarrow> real option \<Rightarrow> real \<Rightarrow> real option \<Rightarrow> real option" where
  "weighted wa a wb b =
     (case a of
        None \<Rightarrow> None
      | Some x \<Rightarrow> (case b of None \<Rightarrow> None | Some y \<Rightarrow> Some (wa * x + wb * y)))"

definition calculate_financial_engagement_score :: "frame \<Rightarrow> frame \<Rightarrow> error + frame" where
  "calculate_financial_engagement_score data processed_data =
     (case getitems data (transaction_cols data) of
        Inl e \<Rightarrow> Inl e
      | Inr tcols \<Rightarrow>
          (case MinMaxScaler_fit_transform tcols of
             Inl e \<Rightarrow> Inl e
           | Inr normalized_transaction \<Rightarrow>
               (case getitems data (savings_cols data) of
                  Inl e \<Rightarrow> Inl e
                | Inr scols \<Rightarrow>
                    (case MinMaxScaler_fit_transform scols of
                       Inl e \<Rightarrow> Inl e
                     | Inr normalized_savings \<Rightarrow>
                         setitem processed_data ''financial_engagement_score''
                           (FloatCol (map (\<lambda>i. weighted (6/10) (row_mean normalized_transaction i)
                                                     (4/10) (row_mean normalized_savings i))
                                        [0..<nrows data]))))))"

text \<open>
  \<^verbatim>\<open>Series.map(education_mapping)\<close>: a value that is not a key of the dictionary, and a
  missing value, become NaN; no exception is raised.
\<close>

definition education_mapping :: "string \<Rightarrow> real option" where
  "education_mapping =
     map_of [(''Primary'', 1), (''Secondary'', 2), (''Tertiary'', 3), (''University'', 4)]"

fun map_education :: "column \<Rightarrow> real option list" where
  "map_education (ObjectCol xs) =
     map (\<lambda>x. case x of None \<Rightarrow> None | Some s \<Rightarrow> education_mapping s) xs"
| "map_education (FloatCol xs) = map (\<lambda>x. None) xs"
| "map_education (IntCol xs) = map (\<lambda>x. None) xs"
| "map_education (BoolCol xs) = map (\<lambda>x. None) xs"

definition calculate_financial_literacy_score :: "frame \<Rightarrow> frame \<Rightarrow> error + frame" where
  "calculate_financial_literacy_score data processed_data =
     (case getitem data ''education'' of
        Inl e \<Rightarrow> Inl e
      | Inr education \<Rightarrow>
          (case MinMaxScaler_fit_transform [FloatCol (map_education education)] of
             Inl e \<Rightarrow> Inl e
           | Inr normalized_education \<Rightarrow>
               (case getitem data ''quintile'' of
                  Inl e \<Rightarrow> Inl e
                | Inr quintile \<Rightarrow>
                    (case MinMaxScaler_fit_transform [quintile] of
                       Inl e \<Rightarrow> Inl e
                     | Inr normalized_income \<Rightarrow>
                         setitem processed_data ''financial_literacy_score''
                           (FloatCol (map (\<lambda>(ed, inc). weighted (6/10) ed (4/10) inc)
                                        (zip (hd normalized_education) (hd normalized_income))))))))"

section \<open>The Exclusion Clusterer: \<^verbatim>\<open>KMeans\<close>\<close>

text \<open>
  \<^verbatim>\<open>KMeans(n_clusters=2, random_state=42)\<close>. The centres that the seeded iteration
  reaches on the data are a parameter \<open>lloyd\<close> of the model. \<^verbatim>\<open>fit\<close> refuses missing and
  non-numeric entries and fewer rows than clusters, and records the number of columns it
  was fitted on; the label of a row is the index of its nearest centre. \<^verbatim>\<open>predict\<close>
  refuses an input whose number of columns differs from the recorded one.
\<close>

record kmeans_model =
  cluster_centers :: "real list list"
  n_features_in :: nat

definition sq_dist :: "real list \<Rightarrow> real list \<Rightarrow> real" where
  "sq_dist u v = sum_list (map (\<lambda>(a, b). (a - b) * (a - b)) (zip u v))"

definition nearest :: "real list list \<Rightarrow> real list \<Rightarrow> nat" where
  "nearest centers x =
     (case map (sq_dist x) centers of
        [] \<Rightarrow> 0
      | d # ds \<Rightarrow> position (fold min ds d) (d # ds))"

definition KMeans_fit_predict ::
    "(real list list \<Rightarrow> real list list) \<Rightarrow> frame \<Rightarrow> error + kmeans_model \<times> nat list" where
  "KMeans_fit_predict lloyd df =
     (if df = [] \<or> nrows df < 2 then Inl ValueError
      else (case collect (map (finite_values \<circ> snd) df) of
              Inl e \<Rightarrow> Inl e
            | Inr cols \<Rightarrow>
                (let X = rows_of (nrows df) cols;
                     centers = lloyd X
                 in Inr (\<lparr>cluster_centers = centers, n_features_in = length df\<rparr>,
                         map (nearest centers) X))))"

definition KMeans_predict :: "kmeans_model \<Rightarrow> real option list \<Rightarrow> error + nat" where
  "KMeans_predict km x =
     (case those x of
        None \<Rightarrow> Inl ValueError
      | Some v \<Rightarrow>
          (if length v \<noteq> n_features_in km then Inl ValueError
           else Inr (nearest (cluster_centers km) v)))"

text \<open>
  \<^verbatim>\<open>Series.idxmin()\<close>: the position of the first smallest non-missing entry.
  \<^verbatim>\<open>df.loc[i].values.reshape(1, -1)\<close>: the entries of row \<open>i\<close> in all columns of the table,
  as the estimator's validation reads them.
\<close>

definition idxmin :: "column \<Rightarrow> error + nat" where
  "idxmin c =
     (case as_float c of
        Inl e \<Rightarrow> Inl TypeError
      | Inr xs \<Rightarrow>
          (case present xs of
             [] \<Rightarrow> Inl ValueError
           | v # vs \<Rightarrow> Inr (position (Some (fold min vs v)) xs)))"

definition row_values :: "frame \<Rightarrow> nat \<Rightarrow> error + real option list" where
  "row_values df i =
     collect (map (\<lambda>(name, c). case as_float c of Inl e \<Rightarrow> Inl e | Inr xs \<Rightarrow> Inr (xs ! i)) df)"

text \<open>The comparison \<^verbatim>\<open>processed_data['exclusion_cluster'] == cluster_id\<close>.\<close>

definition exclusion_label :: "nat list \<Rightarrow> nat \<Rightarrow> bool list" where
  "exclusion_label labels excluded = map (\<lambda>l. l = excluded) labels"

definition cluster_financial_exclusion ::
    "(real list list \<Rightarrow> real list list) \<Rightarrow> frame \<Rightarrow> error + frame" where
  "cluster_financial_exclusion lloyd processed_data =
     (case KMeans_fit_predict lloyd processed_data of
        Inl e \<Rightarrow> Inl e
      | Inr (kmeans, labels) \<Rightarrow>
          (case setitem processed_data ''exclusion_cluster'' (IntCol (map int labels)) of
             Inl e \<Rightarrow> Inl e
           | Inr clustered \<Rightarrow>
               (case getitem clustered ''financial_engagement_score'' of
                  Inl e \<Rightarrow> Inl e
                | Inr score \<Rightarrow>
                    (case idxmin score of
                       Inl e \<Rightarrow> Inl e
                     | Inr i \<Rightarrow>
                         (case row_values clustered i of
                            Inl e \<Rightarrow> Inl e
                          | Inr x \<Rightarrow>
                              (case KMeans_predict kmeans x of
                                 Inl e \<Rightarrow> Inl e
                               | Inr excluded \<Rightarrow>
                                   setitem clustered ''financial_exclusion_label''
                                     (BoolCol (exclusion_label labels excluded))))))))"

section \<open>The Model Bench\<close>

text \<open>
  The first two statements of \<^verbatim>\<open>train_classification_models\<close>:
  \<^verbatim>\<open>X = processed_data.drop('financial_exclusion_label', axis=1)\<close> and
  \<^verbatim>\<open>y = processed_data['financial_exclusion_label']\<close>. The split and the four classifiers
  that consume \<open>X\<close> and \<open>y\<close> are scikit-learn's and are not modelled.
\<close>

definition drop_column :: "frame \<Rightarrow> string \<Rightarrow> error + frame" where
  "drop_column df name =
     (if name \<in> set (map fst df) then Inr (filter (\<lambda>(n, c). n \<noteq> name) df) else Inl KeyError)"

definition train_inputs :: "frame \<Rightarrow> error + frame \<times> column" where
  "train_inputs processed_data =
     (case drop_column processed_data ''financial_exclusion_label'' of
        Inl e \<Rightarrow> Inl e
      | Inr X \<Rightarrow>
          (case getitem processed_data ''financial_exclusion_label'' of
             Inl e \<Rightarrow> Inl e
           | Inr y \<Rightarrow> Inr (X, y)))"

section \<open>The pipeline\<close>

text \<open>
  The cells of the notebook in order, up to the clusterer: \<^verbatim>\<open>preprocess_data\<close>, the two
  score calculators on the mutated raw table (in the class
  \<^verbatim>\<open>FinancialExclusionAnalysis\<close> they are the last two calls of \<^verbatim>\<open>preprocess_data\<close>), then
  \<^verbatim>\<open>cluster_financial_exclusion\<close>.
\<close>

definition scored :: "(real list list \<Rightarrow> pca_model) \<Rightarrow> frame \<Rightarrow> error + frame" where
  "scored pca raw_data =
     (case preprocess_data pca raw_data of
        Inl e \<Rightarrow> Inl e
      | Inr (data, processed_data) \<Rightarrow>
          (case calculate_financial_engagement_score data processed_data of
             Inl e \<Rightarrow> Inl e
           | Inr with_engagement \<Rightarrow> calculate_financial_literacy_score data with_engagement))"

definition pipeline ::
    "(real list list \<Rightarrow> pca_model) \<Rightarrow> (real list list \<Rightarrow> real list list) \<Rightarrow> frame \<Rightarrow> error + frame" where
  "pipeline pca lloyd raw_data =
     (case scored pca raw_data of
        Inl e \<Rightarrow> Inl e
      | Inr processed_data \<Rightarrow> cluster_financial_exclusion lloyd processed_data)"

section \<open>Min-max normalization, as the spec states it\<close>

text \<open>
  The value \<open>(x - min) / (max - min)\<close> of an entry \<open>x\<close> of a column with the values \<open>vs\<close>;
  on a constant column the scaler's result for its entries, 0.
\<close>

definition normalized :: "real list \<Rightarrow> real \<Rightarrow> real" where
  "normalized vs x =
     (if Max (set vs) = Min (set vs) then 0 else (x - Min (set vs)) / (Max (set vs) - Min (set vs)))"

section \<open>Reordering the rows of a table\<close>

text \<open>
  The rows of a column or table taken in the order \<open>p\<close>; \<open>p\<close> is a row order of a table
  with \<open>n\<close> rows when it lists each of \<open>0..n-1\<close> once.
\<close>

definition reorder :: "nat list \<Rightarrow> 'a list \<Rightarrow> 'a list" where
  "reorder p xs = map (\<lambda>i. xs ! i) p"

fun reorder_col :: "nat list \<Rightarrow> column \<Rightarrow> column" where
  "reorder_col p (FloatCol xs) = FloatCol (reorder p xs)"
| "reorder_col p (IntCol xs) = IntCol (reorder p xs)"
| "reorder_col p (ObjectCol xs) = ObjectCol (reorder p xs)"
| "reorder_col p (BoolCol xs) = BoolCol (reorder p xs)"

definition reorder_rows :: "nat list \<Rightarrow> frame \<Rightarrow> frame" where
  "reorder_rows p df = map (\<lambda>(name, c). (name, reorder_col p c)) df"

definition row_order :: "nat list \<Rightarrow> nat \<Rightarrow> bool" where
  "row_order p n = (sort p = [0..<n])"

section \<open>Example tables\<close>

text \<open>
  The table of the spec's end-to-end example: a numeric and a categorical column with one
  missing entry each.
\<close>

definition five_rows :: frame where
  "five_rows =
     [(''txn_amt'', FloatCol [Some 10, Some 20, None, Some 40, Some 50]),
      (''education'', ObjectCol [Some ''Primary'', Some ''Secondary'', Some ''Secondary'', Some ''Tertiary'', None])]"

text \<open>
  A raw table with a numeric column and a categorical column of eleven distinct values.
\<close>

definition counties :: frame where
  "counties =
     [(''age'', IntCol [20, 30, 40, 20, 30, 40, 20, 30, 40, 20, 30]),
      (''county'', ObjectCol [Some ''a'', Some ''b'', Some ''c'', Some ''d'', Some ''e'', Some ''f'',
                              Some ''g'', Some ''h'', Some ''i'', Some ''j'', Some ''k''])]"

text \<open>
  Tables for the engagement score: one whose \<^verbatim>\<open>transaction\<close> column holds strings, and one
  with two numeric \<^verbatim>\<open>transaction\<close> columns and a constant \<^verbatim>\<open>savings\<close> column.
\<close>

definition mixed_columns :: frame where
  "mixed_columns =
     [(''Transaction_type'', ObjectCol [Some ''cash'', Some ''mobile'']),
      (''savings'', FloatCol [Some 1, Some 2])]"

definition two_groups :: frame where
  "two_groups =
     [(''Transaction_count'', IntCol [0, 4, 2]),
      (''transaction_amt'', FloatCol [Some 10, Some 30, Some 20]),
      (''SAVINGS'', FloatCol [Some 5, Some 5, Some 5])]"

text \<open>
  A table for the literacy score with an education value outside the lookup.
\<close>

definition three_levels :: frame where
  "three_levels =
     [(''education'', ObjectCol [Some ''Primary'', Some ''Vocational'', Some ''University'']),
      (''quintile'', IntCol [1, 2, 3])]"

text \<open>
  A processed table as the score calculators leave it, one reduced component and the two
  composite scores for five respondents (the engagement scores of the spec's example),
  and the same table with cluster ids.
\<close>

definition five_scored :: frame where
  "five_scored =
     [(''PC1'', FloatCol [Some (-1/2), Some (1/2), Some (-1/4), Some (1/4), Some (-1)]),
      (''financial_engagement_score'', FloatCol [Some (1/10), Some (9/10), Some (2/10), Some (8/10), Some (5/100)]),
      (''financial_literacy_score'', FloatCol [Some 0, Some 1, Some (1/2), Some 1, Some 0])]"

definition five_clustered :: frame where
  "five_clustered = five_scored @ [(''exclusion_cluster'', IntCol [0, 1, 0, 1, 0])]"

text \<open>
  A raw table of three respondents that passes every stage up to the scores, and a
  reduction that keeps the first column of the feature matrix.
\<close>

definition three_respondents :: frame where
  "three_respondents =
     [(''transaction_amt'', FloatCol [Some 10, None, Some 30]),
      (''savings'', IntCol [5, 1, 3]),
      (''education'', ObjectCol [Some ''Primary'', Some ''University'', None]),
      (''quintile'', IntCol [1, 3, 2])]"

definition first_axis :: "real list list \<Rightarrow> pca_model" where
  "first_axis X = \<lparr>pca_mean = [0, 0, 0, 0, 0], pca_components = [[1, 0, 0, 0, 0]]\<rparr>"

section \<open>Basic facts\<close>

lemma fold_min_Min: "fold min vs (v::real) = Min (set (v # vs))"
  by (rule Min.set_eq_fold [symmetric])

lemma fold_max_Max: "fold max vs (v::real) = Max (set (v # vs))"
  by (rule Max.set_eq_fold [symmetric])

lemma present_map_Some [simp]: "present (map Some vs) = vs"
  by (induction vs) auto

lemma collect_Inr_length: "collect rs = Inr xs \<Longrightarrow> length xs = length rs"
  by (induction rs arbitrary: xs) (auto split: sum.splits)

lemma collect_Inr_nth:
  "collect rs = Inr xs \<Longrightarrow> i < length rs \<Longrightarrow> rs ! i = Inr (xs ! i)"
proof (induction rs arbitrary: xs i)
  case Nil
  then show ?case by simp
next
  case (Cons r rs)
  then show ?case
    by (cases i) (auto split: sum.splits)
qed

lemma minmax_fit_present:
  assumes "vs \<noteq> []"
  shows "minmax_fit (map Some vs) =
           Some (1 / handle_zeros_in_scale (Max (set vs) - Min (set vs)),
                 0 - Min (set vs) * (1 / handle_zeros_in_scale (Max (set vs) - Min (set vs))))"
proof -
  obtain v ws where vs: "vs = v # ws"
    using assms by (cases vs) auto
  show ?thesis
    unfolding minmax_fit_def vs
    by (simp only: present_map_Some list.case Let_def fold_min_Min fold_max_Max)
qed

lemma minmax_value:
  fixes x lo hi :: real
  assumes "lo < hi"
  shows "x * (1 / handle_zeros_in_scale (hi - lo)) + (0 - lo * (1 / handle_zeros_in_scale (hi - lo)))
           = (x - lo) / (hi - lo)"
proof -
  have "handle_zeros_in_scale (hi - lo) = hi - lo"
    using assms by (simp add: handle_zeros_in_scale_def)
  then show ?thesis
    by (simp add: diff_divide_distrib)
qed

lemma minmax_fit_transform_spread:
  assumes "a \<in> set vs" "b \<in> set vs" "a \<noteq> b"
  shows "minmax_fit_transform (map Some vs) =
           map (\<lambda>x. Some ((x - Min (set vs)) / (Max (set vs) - Min (set vs)))) vs"
proof -
  have ne: "vs \<noteq> []" using assms(1) by auto
  have "Min (set vs) \<le> a" "Min (set vs) \<le> b" "a \<le> Max (set vs)" "b \<le> Max (set vs)"
    using assms(1,2) by simp_all
  with assms(3) have lt: "Min (set vs) < Max (set vs)" by linarith
  have "minmax_fit_transform (map Some vs) =
      map (map_option (\<lambda>x. x * (1 / handle_zeros_in_scale (Max (set vs) - Min (set vs)))
             + (0 - Min (set vs) * (1 / handle_zeros_in_scale (Max (set vs) - Min (set vs))))))
        (map Some vs)"
    unfolding minmax_fit_transform_def minmax_fit_present [OF ne] minmax_transform_def
    by (simp only: option.case prod.case)
  also have "\<dots> = map (\<lambda>x. Some ((x - Min (set vs)) / (Max (set vs) - Min (set vs)))) vs"
    unfolding minmax_value [OF lt] by (simp add: comp_def)
  finally show ?thesis .
qed

section \<open>Claims\<close>



subsection \<open>The re-query of the clusterer\<close>

lemma those_length: "those xs = Some vs \<Longrightarrow> length vs = length xs"
  by (induction xs arbitrary: vs) (auto split: option.splits)

lemma row_values_length: "row_values df i = Inr x \<Longrightarrow> length x = length df"
  unfolding row_values_def by (drule collect_Inr_length) simp

lemma KMeans_fit_predict_features:
  "KMeans_fit_predict lloyd df = Inr (km, labels) \<Longrightarrow> n_features_in km = length df"
  by (auto simp: KMeans_fit_predict_def Let_def split: if_splits sum.splits)

lemma setitem_new_length:
  "name \<notin> set (map fst df) \<Longrightarrow> setitem df name c = Inr df' \<Longrightarrow> length df' = Suc (length df)"
  by (auto simp: setitem_def assign_def split: if_splits)

lemma KMeans_predict_mismatch:
  "length x \<noteq> n_features_in km \<Longrightarrow> \<exists>e. KMeans_predict km x = Inl e"
  by (auto simp: KMeans_predict_def dest: those_length split: option.splits)

lemma requery_raises:
  assumes "''exclusion_cluster'' \<notin> set (map fst processed_data)"
  shows "\<exists>e. cluster_financial_exclusion lloyd processed_data = Inl e"
proof (cases "KMeans_fit_predict lloyd processed_data")
  case (Inl e)
  then show ?thesis by (simp add: cluster_financial_exclusion_def)
next
  case (Inr r)
  obtain km labels where r: "r = (km, labels)" by (cases r)
  have nf: "n_features_in km = length processed_data"
    using KMeans_fit_predict_features Inr r by blast
  show ?thesis
  proof (cases "setitem processed_data ''exclusion_cluster'' (IntCol (map int labels))")
    case (Inl e)
    then show ?thesis using Inr r by (simp add: cluster_financial_exclusion_def)
  next
    case clustered: (Inr clustered)
    have len: "length clustered = Suc (length processed_data)"
      using setitem_new_length [OF assms clustered] .
    have bad: "KMeans_predict km x \<noteq> Inr c" if "row_values clustered i = Inr x" for i x c
      using KMeans_predict_mismatch [of x km] row_values_length [OF that] len nf by auto
    show ?thesis
      using Inr r clustered bad
      by (auto simp: cluster_financial_exclusion_def split: sum.splits)
  qed
qed

text \<open>
  C1. The claim describes the label that \<^verbatim>\<open>cluster_financial_exclusion\<close> is written to
  derive. The code does not derive it: the cluster ids are stored as the new column
  \<^verbatim>\<open>exclusion_cluster\<close> before the row of the respondent with the smallest engagement
  score is read, so the row handed to \<^verbatim>\<open>predict\<close> has one entry more than the clusterer
  was fitted on, and \<^verbatim>\<open>predict\<close> raises. On every processed table without a column
  \<^verbatim>\<open>exclusion_cluster\<close> (every table the score calculators produce) the function ends in
  an exception and no respondent is labelled.
\<close>

theorem clusterer_requery_fails:
  assumes "''exclusion_cluster'' \<notin> set (map fst processed_data)"
  shows "\<exists>e. cluster_financial_exclusion lloyd processed_data = Inl e"
  using assms by (rule requery_raises)

theorem clusterer_requery_fails_witness:
  "''exclusion_cluster'' \<notin> set (map fst five_scored)
   \<and> (\<exists>e. cluster_financial_exclusion (take 2) five_scored = Inl e)"
  using clusterer_requery_fails [of five_scored "take 2"]
  by (simp add: five_scored_def)

lemma clusterer_on_five_scored:
  "cluster_financial_exclusion (take 2) five_scored = Inl ValueError"
  by (simp add: five_scored_def cluster_financial_exclusion_def KMeans_fit_predict_def
      finite_values_def rows_of_def nearest_def sq_dist_def setitem_def assign_def getitem_def
      idxmin_def row_values_def KMeans_predict_def upt_rec [of 0] upt_rec [of "Suc _"])

subsection \<open>The encoder on a high-cardinality column\<close>

text \<open>
  C2. The code gives every categorical column to \<^verbatim>\<open>pd.get_dummies\<close>, whatever its
  cardinality, although its own comment reserves one-hot encoding for the low-cardinality
  columns. The column \<^verbatim>\<open>county\<close> of the example has eleven distinct values; the feature
  matrix holds its eleven indicator columns and its integer-coded column.
\<close>

theorem high_cardinality_column_is_one_hot_encoded_too:
  "map_sum id (map fst \<circ> snd) (processed_features counties) =
     Inr [''age'', ''county_a'', ''county_b'', ''county_c'', ''county_d'', ''county_e'', ''county_f'',
          ''county_g'', ''county_h'', ''county_i'', ''county_j'', ''county_k'', ''county_encoded'']"
  by (simp add: counties_def processed_features_def numeric_columns_def categorical_columns_def
    impute_numeric_def impute_categorical_def SimpleImputer_median_def SimpleImputer_most_frequent_def
    impute_median_def impute_most_frequent_def median_def most_frequent_def fillna_def setitems_def assign_def
    get_dummies_def dummies_def categories_def high_cardinality_columns_def getitem_def setitem_def
    codes_def combine_features_def getitems_def MinMaxScaler_fit_transform_def minmax_fit_transform_def
    minmax_fit_def minmax_transform_def handle_zeros_in_scale_def Let_def)

lemma minmax_fit_Some:
  assumes "present xs = v # vs"
  shows "minmax_fit xs =
           Some (1 / handle_zeros_in_scale (Max (set (present xs)) - Min (set (present xs))),
                 0 - Min (set (present xs)) * (1 / handle_zeros_in_scale (Max (set (present xs)) - Min (set (present xs)))))"
  unfolding minmax_fit_def assms
  by (simp only: list.case Let_def fold_min_Min fold_max_Max)

lemma present_mem: "Some x \<in> set xs \<Longrightarrow> x \<in> set (present xs)"
  by (induction xs rule: present.induct) auto

lemma present_Nil_iff: "present xs = [] \<longleftrightarrow> (\<forall>x \<in> set xs. x = None)"
  by (induction xs rule: present.induct) auto

lemma scaled_value:
  fixes x :: real
  assumes "x \<in> set vs"
  shows "x * (1 / handle_zeros_in_scale (Max (set vs) - Min (set vs)))
           + (0 - Min (set vs) * (1 / handle_zeros_in_scale (Max (set vs) - Min (set vs))))
         = normalized vs x"
proof (cases "Max (set vs) = Min (set vs)")
  case True
  have "Min (set vs) \<le> x" "x \<le> Max (set vs)" using assms by simp_all
  then have "x = Min (set vs)" using True by simp
  then show ?thesis using True by (simp add: normalized_def handle_zeros_in_scale_def)
next
  case False
  have "Min (set vs) \<le> x" "x \<le> Max (set vs)" using assms by simp_all
  then have "Min (set vs) < Max (set vs)" using False by linarith
  then show ?thesis using minmax_value [of "Min (set vs)" "Max (set vs)" x] False
    by (simp add: normalized_def)
qed

lemma normalized_range:
  fixes x :: real
  assumes "x \<in> set vs"
  shows "0 \<le> normalized vs x \<and> normalized vs x \<le> 1"
proof -
  have "Min (set vs) \<le> x" "x \<le> Max (set vs)" using assms by simp_all
  then show ?thesis by (auto simp: normalized_def field_simps)
qed

lemma minmax_fit_transform_nth_Some:
  assumes "i < length xs" "xs ! i = Some x"
  shows "minmax_fit_transform xs ! i = Some (normalized (present xs) x)"
proof -
  have mem: "x \<in> set (present xs)"
    using assms present_mem [of x xs] nth_mem [of i xs] by simp
  then obtain v vs where p: "present xs = v # vs" by (cases "present xs") auto
  show ?thesis
    unfolding minmax_fit_transform_def minmax_fit_Some [OF p] minmax_transform_def
    using assms scaled_value [OF mem] by simp
qed

lemma minmax_fit_transform_nth_None:
  assumes "i < length xs" "xs ! i = None"
  shows "minmax_fit_transform xs ! i = None"
  using assms
  by (auto simp: minmax_fit_transform_def minmax_transform_def split: option.splits)

lemma minmax_fit_transform_length [simp]: "length (minmax_fit_transform xs) = length xs"
  by (auto simp: minmax_fit_transform_def minmax_transform_def split: option.splits)

lemma as_float_length: "as_float c = Inr xs \<Longrightarrow> length xs = col_len c"
  by (cases c) auto

lemma map_education_length [simp]: "length (map_education c) = col_len c"
  by (cases c) auto

lemma MinMaxScaler_single:
  assumes "as_float c = Inr xs" "0 < length xs"
  shows "MinMaxScaler_fit_transform [c] = Inr [minmax_fit_transform xs]"
  using assms as_float_length [OF assms(1)]
  by (simp add: MinMaxScaler_fit_transform_def)

subsection \<open>The literacy score\<close>

text \<open>
  C8, as the code has it. On a table with a column \<^verbatim>\<open>education\<close> of strings and a numeric
  column \<^verbatim>\<open>quintile\<close>, the literacy score calculator raises nothing, whatever the
  education values are. A respondent whose education value is not a key of the lookup
  gets a missing score (NaN); the minimum and maximum of the normalization are taken over
  the mapped values only. A respondent whose education value is a key, mapped to \<open>k\<close>,
  and whose quintile \<open>v\<close> is present gets 0.6 times the normalized \<open>k\<close> plus 0.4 times
  the normalized \<open>v\<close>.
\<close>

theorem literacy_unmapped_is_missing:
  assumes edu: "getitem data ''education'' = Inr (ObjectCol edu)"
    and q: "getitem data ''quintile'' = Inr quintile"
    and qs: "as_float quintile = Inr qs"
    and len: "length edu = n" "length qs = n" "0 < n"
    and shape: "processed_data = [] \<or> nrows processed_data = n"
  shows "\<exists>lit. calculate_financial_literacy_score data processed_data
              = Inr (assign processed_data ''financial_literacy_score'' (FloatCol lit))
          \<and> length lit = n
          \<and> (\<forall>i<n. \<forall>s. edu ! i = Some s \<and> education_mapping s = None \<longrightarrow> lit ! i = None)
          \<and> (\<forall>i<n. \<forall>s k v. edu ! i = Some s \<and> education_mapping s = Some k \<and> qs ! i = Some v \<longrightarrow>
               lit ! i = Some (6/10 * normalized (present (map_education (ObjectCol edu))) k
                             + 4/10 * normalized (present qs) v))"
proof -
  let ?m = "map_education (ObjectCol edu)"
  let ?ne = "minmax_fit_transform ?m" and ?ni = "minmax_fit_transform qs"
  let ?lit = "map (\<lambda>(ed, inc). weighted (6/10) ed (4/10) inc) (zip ?ne ?ni)"
  have lm: "length ?m = n" using len by simp
  have e1: "MinMaxScaler_fit_transform [FloatCol ?m] = Inr [?ne]"
    using MinMaxScaler_single [of "FloatCol ?m" ?m] len by simp
  have e2: "MinMaxScaler_fit_transform [quintile] = Inr [?ni]"
    using MinMaxScaler_single [OF qs] len by simp
  have ll: "length ?lit = n" using len by simp
  have run: "calculate_financial_literacy_score data processed_data
      = Inr (assign processed_data ''financial_literacy_score'' (FloatCol ?lit))"
    using edu q e1 e2 shape ll
    unfolding calculate_financial_literacy_score_def
    by (auto simp: setitem_def)
  have nth: "?lit ! i = weighted (6/10) (?ne ! i) (4/10) (?ni ! i)" if "i < n" for i
    using that len by simp
  have unmapped: "?lit ! i = None" if "i < n" "edu ! i = Some s" "education_mapping s = None" for i s
  proof -
    have "?m ! i = None" using that len by simp
    then have "?ne ! i = None"
      using minmax_fit_transform_nth_None [of i ?m] that(1) lm by simp
    then show ?thesis using nth [OF that(1)] by (simp add: weighted_def)
  qed
  have mapped: "?lit ! i = Some (6/10 * normalized (present ?m) k + 4/10 * normalized (present qs) v)"
    if "i < n" "edu ! i = Some s" "education_mapping s = Some k" "qs ! i = Some v" for i s k v
  proof -
    have "?m ! i = Some k" using that len by simp
    then have a: "?ne ! i = Some (normalized (present ?m) k)"
      using minmax_fit_transform_nth_Some [of i ?m k] that(1) lm by simp
    have b: "?ni ! i = Some (normalized (present qs) v)"
      using minmax_fit_transform_nth_Some [of i qs v] that(1,4) len by simp
    show ?thesis using nth [OF that(1)] a b by (simp add: weighted_def)
  qed
  show ?thesis
    using run ll unmapped mapped by blast
qed

text \<open>
  The claim as stated fails: the education value \<^verbatim>\<open>Vocational\<close> is not in the lookup, and
  the calculator returns a table, with a missing score for that respondent.
\<close>

theorem literacy_unmapped_counterexample:
  "calculate_financial_literacy_score three_levels [(''PC1'', FloatCol [Some 0, Some 1, Some 2])]
     = Inr [(''PC1'', FloatCol [Some 0, Some 1, Some 2]),
            (''financial_literacy_score'', FloatCol [Some 0, None, Some 1])]"
  by (simp add: three_levels_def calculate_financial_literacy_score_def getitem_def
      MinMaxScaler_fit_transform_def minmax_fit_transform_def minmax_fit_def minmax_transform_def
      handle_zeros_in_scale_def education_mapping_def weighted_def setitem_def assign_def)

theorem literacy_unmapped_is_missing_witness:
  "\<exists>lit. calculate_financial_literacy_score three_levels [(''PC1'', FloatCol [Some 0, Some 1, Some 2])]
          = Inr (assign [(''PC1'', FloatCol [Some 0, Some 1, Some 2])] ''financial_literacy_score'' (FloatCol lit))
        \<and> length lit = 3 \<and> lit ! 1 = None
        \<and> lit ! 2 = Some (6/10 * normalized (present (map_education (ObjectCol [Some ''Primary'', Some ''Vocational'', Some ''University'']))) 4
                         + 4/10 * normalized (present [Some 1, Some 2, Some 3]) 3)"
proof -
  have a: "getitem three_levels ''education'' = Inr (ObjectCol [Some ''Primary'', Some ''Vocational'', Some ''University''])"
    by (simp add: three_levels_def getitem_def)
  have b: "getitem three_levels ''quintile'' = Inr (IntCol [1, 2, 3])"
    by (simp add: three_levels_def getitem_def)
  have c: "as_float (IntCol [1, 2, 3]) = Inr [Some 1, Some 2, Some 3]"
    by simp
  have d: "[(''PC1'', FloatCol [Some 0, Some 1, Some 2])] = [] \<or> nrows [(''PC1'', FloatCol [Some 0, Some 1, Some 2])] = 3"
    by simp
  obtain lit where run: "calculate_financial_literacy_score three_levels [(''PC1'', FloatCol [Some 0, Some 1, Some 2])]
          = Inr (assign [(''PC1'', FloatCol [Some 0, Some 1, Some 2])] ''financial_literacy_score'' (FloatCol lit))"
      and l: "length lit = 3"
      and u: "\<forall>i<3. \<forall>s. [Some ''Primary'', Some ''Vocational'', Some ''University''] ! i = Some s \<and> education_mapping s = None \<longrightarrow> lit ! i = None"
      and m: "\<forall>i<3. \<forall>s k v. [Some ''Primary'', Some ''Vocational'', Some ''University''] ! i = Some s \<and> education_mapping s = Some k
              \<and> [Some 1, Some 2, Some 3] ! i = Some v \<longrightarrow>
               lit ! i = Some (6/10 * normalized (present (map_education (ObjectCol [Some ''Primary'', Some ''Vocational'', Some ''University'']))) k
                             + 4/10 * normalized (present [Some 1, Some 2, Some 3]) v)"
    using literacy_unmapped_is_missing [OF a b c, of 3 "[(''PC1'', FloatCol [Some 0, Some 1, Some 2])]"] d
    by auto
  have "lit ! 1 = None"
    using u [rule_format, of 1 "''Vocational''"] by (simp add: education_mapping_def)
  moreover have "lit ! 2 = Some (6/10 * normalized (present (map_education (ObjectCol [Some ''Primary'', Some ''Vocational'', Some ''University'']))) 4
                         + 4/10 * normalized (present [Some 1, Some 2, Some 3]) 3)"
    using m [rule_format, of 2 "''University''" 4 3] by (simp add: education_mapping_def)
  ultimately show ?thesis using run l by blast
qed

lemma replace_col_names [simp]: "map fst (replace_col name c df) = map fst df"
  by (induction df) auto

lemma assign_names: "set (map fst (assign df name c)) = insert name (set (map fst df))"
proof (cases "name \<in> set (map fst df)")
  case True
  then have "map fst (assign df name c) = map fst df"
    by (simp add: assign_def)
  then show ?thesis using True by (simp only: insert_absorb)
next
  case False
  then show ?thesis by (simp add: assign_def)
qed

lemma replace_col_mem_pair: "(name, d) \<in> set df \<Longrightarrow> (name, c) \<in> set (replace_col name c df)"
  by (induction df) auto

lemma replace_col_mem: "name \<in> set (map fst df) \<Longrightarrow> (name, c) \<in> set (replace_col name c df)"
  using replace_col_mem_pair [of name _ df c] by auto

lemma assign_mem: "(name, c) \<in> set (assign df name c)"
  by (simp add: assign_def replace_col_mem)

lemma drop_assigned:
  assumes "name \<notin> set (map fst df)"
  shows "drop_column (assign df name c) name = Inr df"
proof -
  have "filter (\<lambda>(n, c). n \<noteq> name) df = df"
    using assms by (induction df) auto
  then show ?thesis
    using assms by (simp add: drop_column_def assign_def)
qed

lemma getitem_assigned:
  assumes "name \<notin> set (map fst df)"
  shows "getitem (assign df name c) name = Inr c"
proof -
  have "map_of df name = None"
    using assms by (simp add: map_of_eq_None_iff)
  then show ?thesis
    using assms by (simp add: getitem_def assign_def map_add_def)
qed

lemma row_values_nth:
  assumes "row_values df i = Inr r" "k < length df" "df ! k = (name, c)"
  shows "\<exists>xs. as_float c = Inr xs \<and> r ! k = xs ! i"
proof -
  have "map (\<lambda>(name, c). case as_float c of Inl e \<Rightarrow> Inl e | Inr xs \<Rightarrow> Inr (xs ! i)) df ! k = Inr (r ! k)"
    using collect_Inr_nth [OF assms(1) [unfolded row_values_def]] assms(2) by simp
  then show ?thesis
    using assms(2,3) by (auto split: sum.splits)
qed

subsection \<open>The features of the Model Bench\<close>

text \<open>
  C10. Let a labelled table be built as \<^verbatim>\<open>cluster_financial_exclusion\<close> builds it: the
  cluster ids assigned as column \<^verbatim>\<open>exclusion_cluster\<close>, then the comparison of the ids
  with one fixed id assigned as the new column \<^verbatim>\<open>financial_exclusion_label\<close>. Then
  \<^verbatim>\<open>train_classification_models\<close> takes as \<open>X\<close> the table without the label column:
  \<open>X\<close> holds \<^verbatim>\<open>exclusion_cluster\<close> and every column the table had before clustering (the two
  scores among them), and \<open>y\<close> is the label column. Two respondents with the same feature
  row in \<open>X\<close> have the same label.
\<close>

theorem label_is_function_of_features:
  assumes "''financial_exclusion_label'' \<notin> set (map fst processed_data)"
    and "clustered = assign processed_data ''exclusion_cluster'' (IntCol (map int labels))"
    and "labelled = assign clustered ''financial_exclusion_label'' (BoolCol (exclusion_label labels excluded))"
  shows "train_inputs labelled = Inr (clustered, BoolCol (exclusion_label labels excluded))
       \<and> ''exclusion_cluster'' \<in> set (map fst clustered)
       \<and> set (map fst processed_data) \<subseteq> set (map fst clustered)
       \<and> (\<forall>i<length labels. \<forall>j<length labels. \<forall>r.
             row_values clustered i = Inr r \<and> row_values clustered j = Inr r \<longrightarrow>
             exclusion_label labels excluded ! i = exclusion_label labels excluded ! j)"
proof -
  have fresh: "''financial_exclusion_label'' \<notin> set (map fst clustered)"
    using assms(1) unfolding assms(2) assign_names by simp
  have inputs: "train_inputs labelled = Inr (clustered, BoolCol (exclusion_label labels excluded))"
    unfolding train_inputs_def assms(3)
    by (simp add: drop_assigned [OF fresh] getitem_assigned [OF fresh])
  have names: "''exclusion_cluster'' \<in> set (map fst clustered)"
    "set (map fst processed_data) \<subseteq> set (map fst clustered)"
    unfolding assms(2) assign_names by auto
  have same: "exclusion_label labels excluded ! i = exclusion_label labels excluded ! j"
    if "i < length labels" "j < length labels"
      "row_values clustered i = Inr r" "row_values clustered j = Inr r" for i j r
  proof -
    have "(''exclusion_cluster'', IntCol (map int labels)) \<in> set clustered"
      unfolding assms(2) by (rule assign_mem)
    then obtain k where k: "k < length clustered"
        "clustered ! k = (''exclusion_cluster'', IntCol (map int labels))"
      by (auto simp: in_set_conv_nth)
    have "r ! k = Some (real_of_int (int (labels ! i)))"
      using row_values_nth [OF that(3) k] that(1) by auto
    moreover have "r ! k = Some (real_of_int (int (labels ! j)))"
      using row_values_nth [OF that(4) k] that(2) by auto
    ultimately have "labels ! i = labels ! j" by simp
    then show ?thesis using that(1,2) by (simp add: exclusion_label_def)
  qed
  show ?thesis
    using inputs names same by blast
qed

theorem label_is_function_of_features_witness:
  "train_inputs (five_clustered @ [(''financial_exclusion_label'', BoolCol [True, False, True, False, True])])
     = Inr (five_clustered, BoolCol [True, False, True, False, True])
   \<and> ''exclusion_cluster'' \<in> set (map fst five_clustered)
   \<and> ''financial_engagement_score'' \<in> set (map fst five_clustered)
   \<and> ''financial_literacy_score'' \<in> set (map fst five_clustered)"
proof -
  have a: "''financial_exclusion_label'' \<notin> set (map fst five_scored)"
    by (simp add: five_scored_def)
  have b: "five_clustered = assign five_scored ''exclusion_cluster'' (IntCol (map int [0, 1, 0, 1, 0]))"
    by (simp add: five_clustered_def five_scored_def assign_def)
  have c: "five_clustered @ [(''financial_exclusion_label'', BoolCol [True, False, True, False, True])]
      = assign five_clustered ''financial_exclusion_label'' (BoolCol (exclusion_label [0, 1, 0, 1, 0] 0))"
    by (simp add: five_clustered_def five_scored_def assign_def exclusion_label_def)
  have d: "exclusion_label [0, 1, 0, 1, 0] 0 = [True, False, True, False, True]"
    by (simp add: exclusion_label_def)
  have "set (map fst five_scored) \<subseteq> set (map fst five_clustered)"
    using label_is_function_of_features [OF a b c] by blast
  then have "''financial_engagement_score'' \<in> set (map fst five_clustered)
      \<and> ''financial_literacy_score'' \<in> set (map fst five_clustered)"
    by (simp add: five_scored_def)
  then show ?thesis
    using label_is_function_of_features [OF a b c] d by simp
qed

lemma those_map_Some: "those xs = Some vs \<Longrightarrow> xs = map Some vs"
  by (induction xs arbitrary: vs) (auto split: option.splits)

lemma those_of_map_Some [simp]: "those (map Some vs) = Some vs"
  by (induction vs) auto

lemma finite_values_as_float: "finite_values c = Inr v \<Longrightarrow> as_float c = Inr (map Some v)"
  by (auto simp: finite_values_def dest: those_map_Some split: sum.splits option.splits)

lemma finite_values_length: "finite_values c = Inr v \<Longrightarrow> length v = col_len c"
  using finite_values_as_float [of c v] as_float_length [of c "map Some v"] by simp

lemma collect_map_transfer:
  assumes "collect (map f xs) = Inr ys"
    and "\<And>x y. x \<in> set xs \<Longrightarrow> f x = Inr y \<Longrightarrow> g x = Inr (h y)"
  shows "collect (map g xs) = Inr (map h ys)"
  using assms
proof (induction xs arbitrary: ys)
  case Nil
  then show ?case by simp
next
  case (Cons x xs)
  from Cons.prems(1) obtain y ys' where y: "f x = Inr y" "collect (map f xs) = Inr ys'" "ys = y # ys'"
    by (auto split: sum.splits)
  have "collect (map g xs) = Inr (map h ys')"
    using Cons.IH [OF y(2)] Cons.prems(2) by simp
  moreover have "g x = Inr (h y)" using Cons.prems(2) y(1) by simp
  ultimately show ?case using y(3) by simp
qed

lemma collect_map_all:
  assumes "collect (map f xs) = Inr ys" "k < length xs"
  shows "f (xs ! k) = Inr (ys ! k)"
  using collect_Inr_nth [OF assms(1)] assms(2) by simp

lemma minmax_fit_transform_present:
  "minmax_fit_transform (map Some vs) = map (\<lambda>x. Some (normalized vs x)) vs"
proof (rule nth_equalityI)
  show "length (minmax_fit_transform (map Some vs)) = length (map (\<lambda>x. Some (normalized vs x)) vs)"
    by simp
next
  fix i assume "i < length (minmax_fit_transform (map Some vs))"
  then have i: "i < length vs" by simp
  then show "minmax_fit_transform (map Some vs) ! i = map (\<lambda>x. Some (normalized vs x)) vs ! i"
    using minmax_fit_transform_nth_Some [of i "map Some vs" "vs ! i"] by simp
qed

lemma getitem_mem: "getitem df name = Inr c \<Longrightarrow> (name, c) \<in> set df"
  by (auto simp: getitem_def dest: map_of_SomeD split: option.splits)

lemma aligned_mem: "aligned n df \<Longrightarrow> (name, c) \<in> set df \<Longrightarrow> col_len c = n"
  by (auto simp: aligned_def list_all_iff)

lemma aligned_nrows: "aligned n df \<Longrightarrow> df \<noteq> [] \<Longrightarrow> nrows df = n"
  by (cases df) (auto simp: aligned_def)

lemma getitems_aligned:
  assumes "getitems df names = Inr cols" "aligned n df" "c \<in> set cols"
  shows "col_len c = n"
proof -
  from assms(3) obtain k where k: "k < length cols" "cols ! k = c"
    by (auto simp: in_set_conv_nth)
  have len: "length cols = length names"
    using collect_Inr_length [OF assms(1) [unfolded getitems_def]] by simp
  have "getitem df (names ! k) = Inr c"
    using collect_map_all [OF assms(1) [unfolded getitems_def]] k len by simp
  then show ?thesis
    using getitem_mem aligned_mem [OF assms(2)] by blast
qed

lemma sum_list_unit_interval:
  fixes xs :: "real list"
  assumes "\<And>x. x \<in> set xs \<Longrightarrow> 0 \<le> x \<and> x \<le> 1"
  shows "0 \<le> sum_list xs \<and> sum_list xs \<le> real (length xs)"
  using assms
proof (induction xs)
  case Nil
  then show ?case by simp
next
  case (Cons x xs)
  have "0 \<le> x \<and> x \<le> 1" using Cons.prems by simp
  moreover have "0 \<le> sum_list xs \<and> sum_list xs \<le> real (length xs)"
    using Cons.IH Cons.prems by simp
  ultimately show ?case by simp
qed

lemma mean_unit_interval:
  fixes xs :: "real list"
  assumes "xs \<noteq> []" "\<And>x. x \<in> set xs \<Longrightarrow> 0 \<le> x \<and> x \<le> 1"
  shows "0 \<le> sum_list xs / real (length xs) \<and> sum_list xs / real (length xs) \<le> 1"
proof -
  have "0 < real (length xs)" using assms(1) by simp
  then show ?thesis
    using sum_list_unit_interval [OF assms(2)] by (simp add: field_simps)
qed

lemma MinMaxScaler_complete:
  assumes cols: "cols \<noteq> []" and fv: "collect (map finite_values cols) = Inr vss"
    and len: "\<And>c. c \<in> set cols \<Longrightarrow> col_len c = n" and n: "0 < n"
  shows "MinMaxScaler_fit_transform cols = Inr (map (\<lambda>vs. map (\<lambda>x. Some (normalized vs x)) vs) vss)"
proof -
  have "collect (map as_float cols) = Inr (map (map Some) vss)"
    using collect_map_transfer [OF fv, of as_float "map Some"] finite_values_as_float by blast
  moreover have "col_len (hd cols) = n"
    using cols len by simp
  ultimately show ?thesis
    using cols n by (simp add: MinMaxScaler_fit_transform_def minmax_fit_transform_present comp_def)
qed

lemma row_mean_complete:
  assumes "\<And>vs. vs \<in> set vss \<Longrightarrow> i < length vs"
  shows "row_mean (map (\<lambda>vs. map (\<lambda>x. Some (normalized vs x)) vs) vss) i
           = Some (sum_list (map (\<lambda>vs. normalized vs (vs ! i)) vss) / real (length vss))"
proof -
  have eq: "map (\<lambda>c. c ! i) (map (\<lambda>vs. map (\<lambda>x. Some (normalized vs x)) vs) vss)
      = map Some (map (\<lambda>vs. normalized vs (vs ! i)) vss)"
    using assms by simp
  show ?thesis
    unfolding row_mean_def eq by (simp only: those_of_map_Some option.case length_map)
qed

subsection \<open>The engagement score\<close>




subsection \<open>The Imputer\<close>

lemma filter_take_le: "length (filter P (take k xs)) \<le> length (filter P xs)"
proof -
  have "length (filter P xs) = length (filter P (take k xs)) + length (filter P (drop k xs))"
    by (metis append_take_drop_id filter_append length_append)
  then show ?thesis by simp
qed

lemma filter_drop_le: "length (filter P (drop k xs)) \<le> length (filter P xs)"
proof -
  have "length (filter P xs) = length (filter P (take k xs)) + length (filter P (drop k xs))"
    by (metis append_take_drop_id filter_append length_append)
  then show ?thesis by simp
qed

lemma filter_all: "(\<And>x. x \<in> set xs \<Longrightarrow> P x) \<Longrightarrow> length (filter P xs) = length xs"
  by (induction xs) auto

lemma sorted_take_le:
  fixes s :: "real list"
  assumes "sorted s" "k < length s" "x \<in> set (take (Suc k) s)"
  shows "x \<le> s ! k"
proof -
  from assms(3) obtain j where j: "j < Suc k" "j < length s" "x = s ! j"
    by (auto simp: in_set_conv_nth)
  then show ?thesis
    using sorted_nth_mono [OF assms(1), of j k] assms(2) by simp
qed

lemma sorted_drop_ge:
  fixes s :: "real list"
  assumes "sorted s" "k < length s" "x \<in> set (drop k s)"
  shows "s ! k \<le> x"
proof -
  from assms(3) obtain j where j: "j < length s - k" "x = s ! (k + j)"
    by (auto simp: in_set_conv_nth)
  then show ?thesis
    using sorted_nth_mono [OF assms(1), of k "k + j"] by simp
qed

lemma count_le_sorted:
  fixes s :: "real list"
  assumes "sorted s" "k < length s" "s ! k \<le> m"
  shows "Suc k \<le> length (filter (\<lambda>x. x \<le> m) s)"
proof -
  have "length (filter (\<lambda>x. x \<le> m) (take (Suc k) s)) = length (take (Suc k) s)"
    using sorted_take_le [OF assms(1,2)] assms(3) by (intro filter_all) force
  then show ?thesis
    using filter_take_le [of "\<lambda>x. x \<le> m" "Suc k" s] assms(2) by simp
qed

lemma count_ge_sorted:
  fixes s :: "real list"
  assumes "sorted s" "k < length s" "m \<le> s ! k"
  shows "length s - k \<le> length (filter (\<lambda>x. m \<le> x) s)"
proof -
  have "length (filter (\<lambda>x. m \<le> x) (drop k s)) = length (drop k s)"
    using sorted_drop_ge [OF assms(1,2)] assms(3) by (intro filter_all) force
  then show ?thesis
    using filter_drop_le [of "\<lambda>x. m \<le> x" k s] by simp
qed

lemma filter_length_sort:
  fixes vs :: "real list"
  shows "length (filter P (sort vs)) = length (filter P vs)"
  by (simp add: filter_sort)

lemma median_halves:
  assumes "vs \<noteq> []"
  shows "length vs \<le> 2 * length (filter (\<lambda>x. x \<le> median vs) vs)
       \<and> length vs \<le> 2 * length (filter (\<lambda>x. median vs \<le> x) vs)"
proof -
  let ?s = "sort vs" and ?n = "length vs"
  let ?k = "?n div 2"
  have s: "sorted ?s" "length ?s = ?n" by simp_all
  have n: "0 < ?n" using assms by simp
  show ?thesis
  proof (cases "odd ?n")
    case True
    then have m: "median vs = ?s ! ?k"
      by (simp add: median_def Let_def)
    have k: "?k < length ?s" using n by simp
    have "Suc ?k \<le> length (filter (\<lambda>x. x \<le> median vs) ?s)"
      using count_le_sorted [OF s(1) k] m by simp
    moreover have "length ?s - ?k \<le> length (filter (\<lambda>x. median vs \<le> x) ?s)"
      using count_ge_sorted [OF s(1) k] m by simp
    ultimately show ?thesis
      unfolding filter_length_sort using True by (auto elim!: oddE)
  next
    case False
    then have m: "median vs = (?s ! (?k - 1) + ?s ! ?k) / 2"
      by (simp add: median_def Let_def)
    have k1: "0 < ?k" using n False by presburger
    have k: "?k < length ?s" "?k - 1 < length ?s"
      using n by (simp_all add: less_imp_diff_less)
    have "?s ! (?k - 1) \<le> ?s ! ?k"
      using sorted_nth_mono [OF s(1), of "?k - 1" ?k] k by simp
    then have le: "?s ! (?k - 1) \<le> median vs" "median vs \<le> ?s ! ?k"
      unfolding m by simp_all
    have "Suc (?k - 1) \<le> length (filter (\<lambda>x. x \<le> median vs) ?s)"
      using count_le_sorted [OF s(1) k(2) le(1)] .
    moreover have "length ?s - ?k \<le> length (filter (\<lambda>x. median vs \<le> x) ?s)"
      using count_ge_sorted [OF s(1) k(1) le(2)] .
    ultimately show ?thesis
      unfolding filter_length_sort using False k1 by (auto elim!: evenE)
  qed
qed

lemma fold_max_attained:
  fixes f :: "'a \<Rightarrow> nat"
  assumes "vs \<noteq> []"
  shows "fold max (map f vs) 0 \<in> f ` set vs \<and> (\<forall>w \<in> set vs. f w \<le> fold max (map f vs) 0)"
proof -
  have eq: "fold max (map f vs) 0 = Max (set (0 # map f vs))"
    by (rule Max.set_eq_fold [symmetric])
  have fin: "finite (set (0 # map f vs))" "set (0 # map f vs) \<noteq> {}" by simp_all
  have mem: "Max (set (0 # map f vs)) \<in> set (0 # map f vs)"
    using Max_in [OF fin] .
  have ge: "\<forall>w \<in> set vs. f w \<le> Max (set (0 # map f vs))"
    by simp
  obtain v where v: "v \<in> set vs" using assms by (cases vs) auto
  have "Max (set (0 # map f vs)) \<in> f ` set vs"
  proof (cases "Max (set (0 # map f vs)) = 0")
    case True
    then have "f v = 0" using ge v by force
    then show ?thesis using True v by force
  next
    case False
    then show ?thesis using mem by auto
  qed
  then show ?thesis using ge eq by simp
qed

lemma most_frequent_mode:
  assumes "vs \<noteq> []"
  shows "most_frequent vs \<in> set vs \<and> (\<forall>w. count_list vs w \<le> count_list vs (most_frequent vs))"
proof -
  let ?M = "fold max (map (count_list vs) vs) 0"
  let ?ties = "filter (\<lambda>v. count_list vs v = ?M) vs"
  have M: "?M \<in> count_list vs ` set vs" "\<forall>w \<in> set vs. count_list vs w \<le> ?M"
    using fold_max_attained [OF assms, of "count_list vs"] by simp_all
  then have ne: "?ties \<noteq> []"
    by (auto simp: filter_empty_conv)
  have "most_frequent vs = fold min (tl ?ties) (hd ?ties)"
    by (simp add: most_frequent_def Let_def)
  also have "\<dots> = Min (set (hd ?ties # tl ?ties))"
    by (rule Min.set_eq_fold [symmetric])
  also have "\<dots> = Min (set ?ties)"
    using ne by simp
  finally have mf: "most_frequent vs = Min (set ?ties)" .
  have in_ties: "Min (set ?ties) \<in> set ?ties"
  proof (rule Min_in)
    show "finite (set ?ties)" by (rule finite_set)
    show "set ?ties \<noteq> {}" using ne by (simp only: set_empty not_False_eq_True)
  qed
  have "most_frequent vs \<in> set ?ties"
    unfolding mf by (rule in_ties)
  then have r: "most_frequent vs \<in> set vs" "count_list vs (most_frequent vs) = ?M"
    by simp_all
  have "count_list vs w \<le> ?M" for w
  proof (cases "w \<in> set vs")
    case True
    then show ?thesis using M(2) by simp
  next
    case False
    then show ?thesis by (simp add: count_list_0_iff)
  qed
  then show ?thesis using r by simp
qed

lemma impute_median_present:
  assumes "present xs \<noteq> []"
  shows "impute_median xs = Some (map (fillna (median (present xs))) xs)"
  using assms by (cases "present xs") (simp_all add: impute_median_def)

lemma impute_most_frequent_present:
  assumes "present cs \<noteq> []"
  shows "impute_most_frequent cs = Some (map (fillna (most_frequent (present cs))) cs)"
  using assms by (cases "present cs") (simp_all add: impute_most_frequent_def)

lemma five_rows_imputed:
  "processed_features five_rows =
     Inr ([(''txn_amt'', FloatCol [Some 10, Some 20, Some 30, Some 40, Some 50]),
           (''education'', ObjectCol [Some ''Primary'', Some ''Secondary'', Some ''Secondary'', Some ''Tertiary'', Some ''Secondary''])],
          [(''txn_amt'', FloatCol [Some 0, Some (1/4), Some (1/2), Some (3/4), Some 1]),
           (''education_Primary'', BoolCol [True, False, False, False, False]),
           (''education_Secondary'', BoolCol [False, True, True, False, True]),
           (''education_Tertiary'', BoolCol [False, False, False, True, False])])"
  by (simp add: five_rows_def processed_features_def numeric_columns_def categorical_columns_def
    impute_numeric_def impute_categorical_def SimpleImputer_median_def SimpleImputer_most_frequent_def
    impute_median_def impute_most_frequent_def median_def most_frequent_def fillna_def setitems_def assign_def
    get_dummies_def dummies_def categories_def high_cardinality_columns_def getitem_def setitem_def
    codes_def combine_features_def getitems_def MinMaxScaler_fit_transform_def minmax_fit_transform_def
    minmax_fit_def minmax_transform_def handle_zeros_in_scale_def Let_def)



subsection \<open>Row counts\<close>

lemma aligned_Cons [simp]: "aligned n ((name, c) # df) \<longleftrightarrow> col_len c = n \<and> aligned n df"
  by (simp add: aligned_def)

lemma aligned_Nil [simp]: "aligned n []"
  by (simp add: aligned_def)

lemma aligned_append [simp]: "aligned n (df @ df') \<longleftrightarrow> aligned n df \<and> aligned n df'"
  by (simp add: aligned_def)

lemma aligned_iff: "aligned n df \<longleftrightarrow> (\<forall>c \<in> set (map snd df). col_len c = n)"
  by (auto simp: aligned_def list_all_iff)

lemma aligned_replace_col: "aligned n df \<Longrightarrow> col_len c = n \<Longrightarrow> aligned n (replace_col name c df)"
  by (induction df) auto

lemma aligned_assign: "aligned n df \<Longrightarrow> col_len c = n \<Longrightarrow> aligned n (assign df name c)"
  by (simp add: assign_def aligned_replace_col)

lemma aligned_fold_assign:
  "aligned n df \<Longrightarrow> (\<And>c. c \<in> set cols \<Longrightarrow> col_len c = n)
     \<Longrightarrow> aligned n (fold (\<lambda>(name, c) d. assign d name c) (zip names cols) df)"
proof (induction cols arbitrary: names df)
  case Nil
  then show ?case by simp
next
  case (Cons c cols)
  show ?case
  proof (cases names)
    case Nil
    then show ?thesis using Cons.prems by simp
  next
    case (Cons name names')
    have "aligned n (assign df name c)"
      using aligned_assign Cons.prems by simp
    then show ?thesis
      using Cons.IH [of "assign df name c" names'] Cons.prems(2) Cons by simp
  qed
qed

lemma aligned_setitems:
  assumes "aligned n df" "\<And>c. c \<in> set cols \<Longrightarrow> col_len c = n" "setitems df names cols = Inr df'"
  shows "aligned n df'"
  using assms aligned_fold_assign [of n df cols names]
  by (auto simp: setitems_def split: if_splits)

lemma select_numeric_length:
  "aligned n df \<Longrightarrow> (name, xs) \<in> set (select_numeric df) \<Longrightarrow> length xs = n"
  by (induction df rule: select_numeric.induct) auto

lemma select_object_length:
  "aligned n df \<Longrightarrow> (name, xs) \<in> set (select_object df) \<Longrightarrow> length xs = n"
  by (induction df rule: select_object.induct) auto

lemma present_set: "x \<in> set (present xs) \<longleftrightarrow> Some x \<in> set xs"
  by (induction xs rule: present.induct) auto

lemma impute_median_length: "impute_median xs = Some ys \<Longrightarrow> length ys = length xs"
  by (auto simp: impute_median_def split: list.splits)

lemma impute_most_frequent_length: "impute_most_frequent xs = Some ys \<Longrightarrow> length ys = length xs"
  by (auto simp: impute_most_frequent_def split: list.splits)

lemma SimpleImputer_median_lengths:
  assumes "SimpleImputer_median cols = Inr filled" "\<And>xs. xs \<in> set cols \<Longrightarrow> length xs = n"
    "ys \<in> set filled"
  shows "length ys = n"
proof -
  have "Some ys \<in> set (map impute_median cols)"
    using assms(1,3) by (auto simp: SimpleImputer_median_def present_set split: if_splits)
  then obtain xs where "xs \<in> set cols" "impute_median xs = Some ys" by auto
  then show ?thesis using impute_median_length [of xs ys] assms(2) [of xs] by simp
qed

lemma SimpleImputer_most_frequent_lengths:
  assumes "SimpleImputer_most_frequent cols = Inr filled" "\<And>xs. xs \<in> set cols \<Longrightarrow> length xs = n"
    "ys \<in> set filled"
  shows "length ys = n"
proof -
  have "Some ys \<in> set (map impute_most_frequent cols)"
    using assms(1,3) by (auto simp: SimpleImputer_most_frequent_def present_set split: if_splits)
  then obtain xs where "xs \<in> set cols" "impute_most_frequent xs = Some ys" by auto
  then show ?thesis using impute_most_frequent_length [of xs ys] assms(2) [of xs] by simp
qed

lemma impute_numeric_aligned:
  assumes "aligned n data" "impute_numeric data = Inr data1"
  shows "aligned n data1"
proof -
  from assms(2) obtain filled where f: "SimpleImputer_median (map snd (select_numeric data)) = Inr filled"
    and s: "setitems data (numeric_columns data) (map (\<lambda>vs. FloatCol (map Some vs)) filled) = Inr data1"
    by (auto simp: impute_numeric_def split: sum.splits)
  have len: "length xs = n" if "xs \<in> set (map snd (select_numeric data))" for xs
    using that select_numeric_length [OF assms(1)] by auto
  have filled: "length ys = n" if "ys \<in> set filled" for ys
    by (rule SimpleImputer_median_lengths [OF f _ that]) (rule len)
  have cols: "col_len c = n" if "c \<in> set (map (\<lambda>vs. FloatCol (map Some vs)) filled)" for c
    using that filled by auto
  show ?thesis
    by (rule aligned_setitems [OF assms(1) _ s]) (rule cols)
qed

lemma impute_categorical_aligned:
  assumes "aligned n data" "impute_categorical data = Inr data1"
  shows "aligned n data1"
proof -
  from assms(2) obtain filled where f: "SimpleImputer_most_frequent (map snd (select_object data)) = Inr filled"
    and s: "setitems data (categorical_columns data) (map (\<lambda>vs. ObjectCol (map Some vs)) filled) = Inr data1"
    by (auto simp: impute_categorical_def split: sum.splits)
  have len: "length xs = n" if "xs \<in> set (map snd (select_object data))" for xs
    using that select_object_length [OF assms(1)] by auto
  have filled: "length ys = n" if "ys \<in> set filled" for ys
    by (rule SimpleImputer_most_frequent_lengths [OF f _ that]) (rule len)
  have cols: "col_len c = n" if "c \<in> set (map (\<lambda>vs. ObjectCol (map Some vs)) filled)" for c
    using that filled by auto
  show ?thesis
    by (rule aligned_setitems [OF assms(1) _ s]) (rule cols)
qed

lemma dummies_aligned: "length xs = n \<Longrightarrow> aligned n (dummies (name, xs))"
  by (auto simp: dummies_def aligned_iff)

lemma get_dummies_aligned:
  assumes "\<And>name xs. (name, xs) \<in> set cols \<Longrightarrow> length xs = n"
  shows "aligned n (get_dummies cols)"
  using assms
proof (induction cols)
  case Nil
  then show ?case by (simp add: get_dummies_def)
next
  case (Cons nc cols)
  obtain name xs where nc: "nc = (name, xs)" by (cases nc)
  have "length xs = n"
    using Cons.prems [of name xs] nc by simp
  then have "aligned n (dummies (name, xs))"
    by (rule dummies_aligned)
  moreover have "aligned n (get_dummies cols)"
    by (rule Cons.IH) (use Cons.prems in auto)
  ultimately show ?case by (simp add: get_dummies_def nc)
qed

lemma LabelEncoder_length: "LabelEncoder_fit_transform c = Inr ks \<Longrightarrow> length ks = col_len c"
  by (cases c) (auto simp: codes_def dest: those_length split: option.splits)

lemma setitem_aligned:
  assumes "aligned n df" "col_len c = n" "setitem df name c = Inr df'"
  shows "aligned n df'"
  using assms by (auto simp: setitem_def aligned_assign split: if_splits)

lemma encode_columns_aligned:
  "aligned n data \<Longrightarrow> encode_columns data cols = Inr data' \<Longrightarrow> aligned n data'"
proof (induction cols arbitrary: data)
  case Nil
  then show ?case by simp
next
  case (Cons col cols)
  from Cons.prems(2) obtain c ks d where c: "getitem data col = Inr c"
    and ks: "LabelEncoder_fit_transform c = Inr ks"
    and d: "setitem data (col @ ''_encoded'') (IntCol ks) = Inr d"
    and rest: "encode_columns d cols = Inr data'"
    by (auto split: sum.splits)
  have "col_len c = n"
    using aligned_mem [OF Cons.prems(1) getitem_mem [OF c]] .
  then have "col_len (IntCol ks) = n"
    using LabelEncoder_length [OF ks] by simp
  then have "aligned n d"
    using setitem_aligned [OF Cons.prems(1) _ d] by simp
  then show ?case using Cons.IH rest by blast
qed

lemma aligned_zip:
  assumes "\<And>c. c \<in> set cols \<Longrightarrow> col_len c = n"
  shows "aligned n (zip names cols)"
  using assms by (auto simp: aligned_iff dest!: set_zip_rightD)

lemma MinMaxScaler_lengths:
  assumes "MinMaxScaler_fit_transform cols = Inr out" "\<And>c. c \<in> set cols \<Longrightarrow> col_len c = n"
    "ys \<in> set out"
  shows "length ys = n"
proof -
  from assms(1) obtain fs where fs: "collect (map as_float cols) = Inr fs"
    and out: "out = map minmax_fit_transform fs"
    by (auto simp: MinMaxScaler_fit_transform_def split: if_splits sum.splits)
  from assms(3) out obtain k where k: "k < length fs" "ys = minmax_fit_transform (fs ! k)"
    by (auto simp: in_set_conv_nth)
  have l: "length fs = length cols" using collect_Inr_length [OF fs] by simp
  have "as_float (cols ! k) = Inr (fs ! k)"
    using collect_map_all [OF fs] k l by simp
  then have "length (fs ! k) = col_len (cols ! k)"
    by (rule as_float_length)
  then show ?thesis using k l assms(2) [of "cols ! k"] by simp
qed

lemma combine_features_aligned:
  assumes "aligned n data" "aligned n categorical_encoded"
    "combine_features data nums categorical_encoded high = Inr combined"
  shows "aligned n combined"
proof -
  from assms(3) obtain ncols numeric_scaled ecols where
    n: "getitems data nums = Inr ncols"
    and sc: "MinMaxScaler_fit_transform ncols = Inr numeric_scaled"
    and e: "getitems data (map (\<lambda>col. col @ ''_encoded'') high) = Inr ecols"
    and comb: "combined = zip nums (map FloatCol numeric_scaled) @ categorical_encoded
                 @ zip (map (\<lambda>col. col @ ''_encoded'') high) ecols"
    by (auto simp: combine_features_def split: sum.splits)
  have "length ys = n" if "ys \<in> set numeric_scaled" for ys
    using MinMaxScaler_lengths [OF sc _ that] getitems_aligned [OF n assms(1)] by blast
  then have a: "aligned n (zip nums (map FloatCol numeric_scaled))"
    by (intro aligned_zip) auto
  have b: "aligned n (zip (map (\<lambda>col. col @ ''_encoded'') high) ecols)"
    using getitems_aligned [OF e assms(1)] by (intro aligned_zip) auto
  show ?thesis
    unfolding comb using a b assms(2) by simp
qed

lemma aligned_map_columns:
  assumes "\<And>k. k \<in> set ks \<Longrightarrow> col_len (g k) = n"
  shows "aligned n (map (\<lambda>k. (f k, g k)) ks)"
  using assms by (induction ks) auto

lemma PCA_fit_transform_aligned:
  assumes "aligned n df" "PCA_fit_transform pca df = Inr p"
  shows "aligned n p"
proof -
  have ne: "df \<noteq> []"
    using assms(2) by (auto simp: PCA_fit_transform_def split: if_splits)
  have nr: "nrows df = n"
    using aligned_nrows [OF assms(1) ne] .
  from assms(2) obtain cols where cols: "collect (map (finite_values \<circ> snd) df) = Inr cols"
    by (cases "collect (map (finite_values \<circ> snd) df)")
       (simp_all add: PCA_fit_transform_def split: if_splits)
  define X where "X = rows_of n cols"
  define Z where "Z = map (project (pca X)) X"
  have lz: "length Z = n"
    by (simp add: Z_def X_def rows_of_def)
  have "PCA_fit_transform pca df =
      Inr (map (\<lambda>k. (''PC'' @ string_of_nat (k + 1), FloatCol (map (\<lambda>z. Some (z ! k)) Z)))
             [0..<length (pca_components (pca X))])"
    using assms(2) ne cols unfolding PCA_fit_transform_def nr Z_def X_def
    by (simp add: Let_def split: if_splits)
  then have p: "p = map (\<lambda>k. (''PC'' @ string_of_nat (k + 1), FloatCol (map (\<lambda>z. Some (z ! k)) Z)))
             [0..<length (pca_components (pca X))]"
    using assms(2) by simp
  show ?thesis
    unfolding p by (rule aligned_map_columns) (simp add: lz)
qed

lemma setitem_upt_column:
  "setitem p name (FloatCol (map f [0..<m])) = Inr p'
     \<Longrightarrow> \<exists>c. col_len c = m \<and> setitem p name c = Inr p'"
  by (rule exI [of _ "FloatCol (map f [0..<m])"]) simp

lemma engagement_aligned:
  assumes "aligned n data" "aligned n p" "calculate_financial_engagement_score data p = Inr p'"
  shows "aligned n p'"
proof -
  from assms(3) obtain tcols nt c where t: "getitems data (transaction_cols data) = Inr tcols"
    and nt: "MinMaxScaler_fit_transform tcols = Inr nt"
    and c: "col_len c = nrows data" and set: "setitem p ''financial_engagement_score'' c = Inr p'"
    unfolding calculate_financial_engagement_score_def
    by (auto split: sum.splits dest!: setitem_upt_column)
  have "tcols \<noteq> []"
    using nt by (auto simp: MinMaxScaler_fit_transform_def)
  then have "data \<noteq> []"
    using t by (auto simp: getitems_def transaction_cols_def)
  then have "nrows data = n"
    using aligned_nrows [OF assms(1)] by simp
  then show ?thesis
    using setitem_aligned [OF assms(2) _ set] c by simp
qed

lemma replace_col_Nil [simp]: "replace_col name c df = [] \<longleftrightarrow> df = []"
  by (cases df) (auto split: if_splits)

lemma assign_nonempty: "assign df name c \<noteq> []"
  by (auto simp: assign_def)

lemma setitem_onto_aligned:
  assumes "aligned n p" "p \<noteq> []" "setitem p name c = Inr p'"
  shows "aligned n p'"
proof -
  have "col_len c = nrows p"
    using assms(2,3) by (auto simp: setitem_def split: if_splits)
  then have "col_len c = n"
    using aligned_nrows [OF assms(1,2)] by simp
  then show ?thesis
    using setitem_aligned [OF assms(1) _ assms(3)] by simp
qed

lemma literacy_aligned:
  assumes "aligned n p" "p \<noteq> []" "calculate_financial_literacy_score data p = Inr p'"
  shows "aligned n p'"
proof -
  from assms(3) obtain c where "setitem p ''financial_literacy_score'' c = Inr p'"
    by (auto simp: calculate_financial_literacy_score_def split: sum.splits)
  then show ?thesis
    using setitem_onto_aligned [OF assms(1,2)] by blast
qed

lemma setitem_nonempty: "setitem p name c = Inr p' \<Longrightarrow> p' \<noteq> []"
  by (auto simp: setitem_def assign_nonempty split: if_splits)

lemma engagement_nonempty: "calculate_financial_engagement_score data p = Inr p' \<Longrightarrow> p' \<noteq> []"
  by (auto simp: calculate_financial_engagement_score_def dest: setitem_nonempty split: sum.splits)

lemma literacy_nonempty: "calculate_financial_literacy_score data p = Inr p' \<Longrightarrow> p' \<noteq> []"
  by (auto simp: calculate_financial_literacy_score_def dest: setitem_nonempty split: sum.splits)

lemma KMeans_labels_length:
  assumes "aligned n p" "KMeans_fit_predict lloyd p = Inr (km, labels)"
  shows "length labels = n"
proof -
  have ne: "p \<noteq> []"
    using assms(2) by (auto simp: KMeans_fit_predict_def split: if_splits)
  have "nrows p = n"
    using aligned_nrows [OF assms(1) ne] .
  then show ?thesis
    using assms(2)
    by (auto simp: KMeans_fit_predict_def Let_def rows_of_def split: if_splits sum.splits)
qed

subsection \<open>Row order\<close>

text \<open>
  A table whose rows are taken in another order \<open>p\<close>, a rearrangement of \<open>0..n-1\<close>:
  row \<open>i\<close> of the reordered table is row \<open>p ! i\<close> of the table. Every stage commutes with
  the reordering, so the output row of a respondent does not depend on where the
  respondent stands in the table.
\<close>

lemma row_order_mset: "row_order p n \<Longrightarrow> mset p = mset [0..<n]"
  unfolding row_order_def by (metis mset_sort)

lemma row_order_length: "row_order p n \<Longrightarrow> length p = n"
  unfolding row_order_def by (metis length_sort length_upt diff_zero)

lemma row_order_less: "row_order p n \<Longrightarrow> i \<in> set p \<Longrightarrow> i < n"
  unfolding row_order_def by (metis set_sort atLeastLessThan_iff set_upt)

lemma reorder_length [simp]: "length (reorder p xs) = length p"
  by (simp add: reorder_def)

lemma reorder_col_len [simp]: "col_len (reorder_col p c) = length p"
  by (cases c) simp_all

lemma reorder_nth: "i < length p \<Longrightarrow> reorder p xs ! i = xs ! (p ! i)"
  by (simp add: reorder_def)

lemma reorder_map:
  assumes "\<And>i. i \<in> set p \<Longrightarrow> i < length xs"
  shows "reorder p (map f xs) = map f (reorder p xs)"
  using assms by (simp add: reorder_def)

lemma reorder_upt:
  assumes "\<And>i. i \<in> set p \<Longrightarrow> i < n"
  shows "reorder p (map f [0..<n]) = map f p"
  using assms by (simp add: reorder_def)

lemma reorder_mset:
  assumes "row_order p n" "length xs = n"
  shows "mset (reorder p xs) = mset xs"
proof -
  have "mset (reorder p xs) = image_mset (\<lambda>i. xs ! i) (mset p)"
    by (simp add: reorder_def)
  also have "\<dots> = image_mset (\<lambda>i. xs ! i) (mset [0..<n])"
    using row_order_mset [OF assms(1)] by simp
  also have "\<dots> = mset (map (\<lambda>i. xs ! i) [0..<length xs])"
    using assms(2) by simp
  also have "\<dots> = mset xs"
    by (simp add: map_nth)
  finally show ?thesis .
qed

lemma reorder_set:
  assumes "row_order p n" "length xs = n"
  shows "set (reorder p xs) = set xs"
  using reorder_mset [OF assms] by (metis set_mset_mset)

lemma mset_present: "mset (present xs) = image_mset the (filter_mset (\<lambda>x. x \<noteq> None) (mset xs))"
  by (induction xs rule: present.induct) auto

lemma present_reorder_mset:
  assumes "row_order p n" "length xs = n"
  shows "mset (present (reorder p xs)) = mset (present xs)"
  by (simp add: mset_present reorder_mset [OF assms])

lemma sort_mset_cong:
  fixes xs ys :: "'a::linorder list"
  assumes "mset xs = mset ys"
  shows "sort xs = sort ys"
  using assms by (metis properties_for_sort sorted_sort mset_sort)

lemma reorder_map_rows:
  assumes "row_order p n" "length xs = n"
  shows "reorder p (map f xs) = map f (reorder p xs)"
  using row_order_less [OF assms(1)] assms(2) by (simp add: reorder_def)

lemma those_None_iff: "those xs = None \<longleftrightarrow> None \<in> set xs"
  by (induction xs) (auto split: option.splits)

lemma those_reorder:
  assumes "row_order p n" "length xs = n"
  shows "those (reorder p xs) = map_option (reorder p) (those xs)"
proof (cases "those xs")
  case None
  then have "None \<in> set xs" by (simp add: those_None_iff)
  then have "None \<in> set (reorder p xs)"
    using reorder_set [OF assms] by simp
  then have "those (reorder p xs) = None" by (simp add: those_None_iff)
  then show ?thesis using None by simp
next
  case (Some vs)
  then have xs: "xs = map Some vs" by (rule those_map_Some)
  have "length vs = n" using assms(2) xs by simp
  then have "reorder p xs = map Some (reorder p vs)"
    unfolding xs by (rule reorder_map_rows [OF assms(1)])
  then show ?thesis using Some by simp
qed

lemma present_map_option: "present (map (map_option f) xs) = map f (present xs)"
  by (induction xs rule: present.induct) auto

text \<open>Column statistics do not depend on the order of the rows.\<close>


lemma median_mset_cong: "mset vs = mset ws \<Longrightarrow> median vs = median ws"
  using sort_mset_cong [of vs ws] by (simp add: median_def)

lemma most_frequent_Min:
  assumes "vs \<noteq> []"
  shows "most_frequent vs =
           Min {v \<in> set vs. count_list vs v = Max (insert 0 (count_list vs ` set vs))}"
proof -
  let ?M = "fold max (map (count_list vs) vs) 0"
  let ?ties = "filter (\<lambda>v. count_list vs v = ?M) vs"
  have M: "?M = Max (insert 0 (count_list vs ` set vs))"
    using Max.set_eq_fold [of 0 "map (count_list vs) vs"] by simp
  have "?M \<in> count_list vs ` set vs"
    using fold_max_attained [OF assms, of "count_list vs"] by simp
  then have ne: "?ties \<noteq> []"
    by (auto simp: filter_empty_conv)
  have "most_frequent vs = fold min (tl ?ties) (hd ?ties)"
    by (simp add: most_frequent_def Let_def)
  also have "\<dots> = Min (set (hd ?ties # tl ?ties))"
    by (rule Min.set_eq_fold [symmetric])
  also have "\<dots> = Min (set ?ties)"
    using ne by simp
  finally show ?thesis
    unfolding M by simp
qed

lemma count_list_mset_cong: "mset vs = mset ws \<Longrightarrow> count_list vs = count_list ws"
  by (metis count_mset ext)

lemma most_frequent_mset_cong:
  assumes "mset vs = mset ws" "vs \<noteq> []"
  shows "most_frequent vs = most_frequent ws"
proof -
  have ws: "ws \<noteq> []" using assms by auto
  have s: "set vs = set ws" using assms(1) by (metis set_mset_mset)
  show ?thesis
    unfolding most_frequent_Min [OF assms(2)] most_frequent_Min [OF ws]
      count_list_mset_cong [OF assms(1)] s ..
qed

lemma categories_set_cong:
  fixes vs ws :: "'a::linorder list"
  shows "set vs = set ws \<Longrightarrow> categories vs = categories ws"
  by (simp add: categories_def sorted_list_of_set_sort_remdups [symmetric])

lemma nunique_length_cong:
  "set vs = set ws \<Longrightarrow> length (remdups vs) = length (remdups ws)"
  by (simp add: length_remdups_card_conv)

lemma present_reorder_Nil:
  assumes "row_order p n" "length xs = n"
  shows "present (reorder p xs) = [] \<longleftrightarrow> present xs = []"
  using present_reorder_mset [OF assms] by (metis mset_zero_iff)

lemma impute_median_reorder:
  assumes "row_order p n" "length xs = n"
  shows "impute_median (reorder p xs) = map_option (reorder p) (impute_median xs)"
proof (cases "present xs = []")
  case True
  then have "present (reorder p xs) = []"
    using present_reorder_Nil [OF assms] by simp
  then show ?thesis using True by (simp add: impute_median_def)
next
  case False
  then have ne: "present (reorder p xs) \<noteq> []"
    using present_reorder_Nil [OF assms] by simp
  have m: "median (present (reorder p xs)) = median (present xs)"
    using median_mset_cong [OF present_reorder_mset [OF assms]] .
  show ?thesis
    unfolding impute_median_present [OF ne] impute_median_present [OF False] m
    using reorder_map_rows [OF assms, of "fillna (median (present xs))"] by simp
qed

lemma impute_most_frequent_reorder:
  assumes "row_order p n" "length xs = n"
  shows "impute_most_frequent (reorder p xs) = map_option (reorder p) (impute_most_frequent xs)"
proof (cases "present xs = []")
  case True
  then have "present (reorder p xs) = []"
    using present_reorder_Nil [OF assms] by simp
  then show ?thesis using True by (simp add: impute_most_frequent_def)
next
  case False
  then have ne: "present (reorder p xs) \<noteq> []"
    using present_reorder_Nil [OF assms] by simp
  have m: "most_frequent (present (reorder p xs)) = most_frequent (present xs)"
    using most_frequent_mset_cong [OF present_reorder_mset [OF assms] ne] .
  show ?thesis
    unfolding impute_most_frequent_present [OF ne] impute_most_frequent_present [OF False] m
    using reorder_map_rows [OF assms, of "fillna (most_frequent (present xs))"] by simp
qed

lemma minmax_fit_mset_cong:
  assumes "mset (present xs) = mset (present ys)"
  shows "minmax_fit xs = minmax_fit ys"
proof (cases "present xs")
  case Nil
  then have "present ys = []" using assms by simp
  then show ?thesis using Nil by (simp add: minmax_fit_def)
next
  case (Cons v vs)
  then obtain w ws where ys: "present ys = w # ws"
    using assms by (cases "present ys") auto
  have "set (present xs) = set (present ys)"
    using assms by (metis set_mset_mset)
  then show ?thesis
    unfolding minmax_fit_Some [OF Cons] minmax_fit_Some [OF ys] by simp
qed

lemma minmax_transform_reorder:
  assumes "row_order p n" "length xs = n"
  shows "minmax_transform P (reorder p xs) = reorder p (minmax_transform P xs)"
proof (cases P)
  case None
  then show ?thesis
    using row_order_less [OF assms(1)] assms(2) by (simp add: minmax_transform_def reorder_def)
next
  case (Some sm)
  obtain scale min_shift where sm: "sm = (scale, min_shift)" by (cases sm)
  show ?thesis
    using reorder_map_rows [OF assms, of "map_option (\<lambda>x. x * scale + min_shift)"] Some sm
    by (simp add: minmax_transform_def)
qed

lemma minmax_fit_transform_reorder:
  assumes "row_order p n" "length xs = n"
  shows "minmax_fit_transform (reorder p xs) = reorder p (minmax_fit_transform xs)"
  unfolding minmax_fit_transform_def
    minmax_fit_mset_cong [OF present_reorder_mset [OF assms]]
  by (rule minmax_transform_reorder [OF assms])

lemma codes_reorder:
  fixes vs :: "'a::linorder list"
  assumes "row_order p n" "length vs = n"
  shows "codes (reorder p vs) = reorder p (codes vs)"
proof -
  have c: "categories (reorder p vs) = categories vs"
    using categories_set_cong [OF reorder_set [OF assms]] .
  show ?thesis
    unfolding codes_def c
    using reorder_map_rows [OF assms, of "\<lambda>v. int (position v (categories vs))"] by simp
qed

lemma as_float_reorder:
  assumes "row_order p n" "col_len c = n"
  shows "as_float (reorder_col p c) = map_sum id (reorder p) (as_float c)"
  using assms(2) row_order_less [OF assms(1)] by (cases c) (simp_all add: reorder_def)

lemma finite_values_reorder:
  assumes "row_order p n" "col_len c = n"
  shows "finite_values (reorder_col p c) = map_sum id (reorder p) (finite_values c)"
proof (cases "as_float c")
  case (Inl e)
  then show ?thesis
    using as_float_reorder [OF assms] by (simp add: finite_values_def)
next
  case (Inr xs)
  have l: "length xs = n" using as_float_length [OF Inr] assms(2) by simp
  have "those (reorder p xs) = map_option (reorder p) (those xs)"
    by (rule those_reorder [OF assms(1) l])
  then show ?thesis
    using as_float_reorder [OF assms] Inr
    by (cases "those xs") (simp_all add: finite_values_def)
qed

lemma present_reorder_set:
  assumes "row_order p n" "length xs = n"
  shows "set (present (reorder p xs)) = set (present xs)"
proof -
  have "set_mset (mset (present (reorder p xs))) = set_mset (mset (present xs))"
    using present_reorder_mset [OF assms] by simp
  then show ?thesis by simp
qed

lemma nunique_reorder:
  assumes "row_order p n" "col_len c = n"
  shows "nunique (reorder_col p c) = nunique c"
proof (cases c)
  case (FloatCol xs)
  then have l: "length xs = n" using assms(2) by simp
  show ?thesis
    using FloatCol nunique_length_cong [OF present_reorder_set [OF assms(1) l]] by simp
next
  case (IntCol xs)
  then have l: "length xs = n" using assms(2) by simp
  show ?thesis
    using IntCol nunique_length_cong [OF reorder_set [OF assms(1) l]] by simp
next
  case (ObjectCol xs)
  then have l: "length xs = n" using assms(2) by simp
  show ?thesis
    using ObjectCol nunique_length_cong [OF present_reorder_set [OF assms(1) l]] by simp
next
  case (BoolCol xs)
  then have l: "length xs = n" using assms(2) by simp
  show ?thesis
    using BoolCol nunique_length_cong [OF reorder_set [OF assms(1) l]] by simp
qed

lemma LabelEncoder_reorder:
  assumes "row_order p n" "col_len c = n"
  shows "LabelEncoder_fit_transform (reorder_col p c)
           = map_sum id (reorder p) (LabelEncoder_fit_transform c)"
proof (cases c)
  case (FloatCol xs)
  then have l: "length xs = n" using assms(2) by simp
  show ?thesis
  proof (cases "those xs")
    case None
    then show ?thesis using FloatCol those_reorder [OF assms(1) l] by simp
  next
    case (Some vs)
    then have lv: "length vs = n" using those_length [of xs vs] l by simp
    show ?thesis
      using FloatCol Some those_reorder [OF assms(1) l] codes_reorder [OF assms(1) lv] by simp
  qed
next
  case (IntCol xs)
  then have l: "length xs = n" using assms(2) by simp
  show ?thesis using IntCol codes_reorder [OF assms(1) l] by simp
next
  case (ObjectCol xs)
  then have l: "length xs = n" using assms(2) by simp
  show ?thesis
  proof (cases "those xs")
    case None
    then show ?thesis using ObjectCol those_reorder [OF assms(1) l] by simp
  next
    case (Some vs)
    then have lv: "length vs = n" using those_length [of xs vs] l by simp
    show ?thesis
      using ObjectCol Some those_reorder [OF assms(1) l] codes_reorder [OF assms(1) lv] by simp
  qed
next
  case (BoolCol xs)
  then have l: "length xs = n" using assms(2) by simp
  show ?thesis using BoolCol codes_reorder [OF assms(1) l] by simp
qed

text \<open>Tables with reordered rows.\<close>

lemma reorder_rows_names [simp]: "map fst (reorder_rows p df) = map fst df"
  by (induction df) (auto simp: reorder_rows_def)

lemma reorder_rows_Nil [simp]: "reorder_rows p df = [] \<longleftrightarrow> df = []"
  by (simp add: reorder_rows_def)

lemma reorder_rows_Cons [simp]:
  "reorder_rows p ((name, c) # df) = (name, reorder_col p c) # reorder_rows p df"
  by (simp add: reorder_rows_def)

lemma reorder_rows_empty [simp]: "reorder_rows p [] = []"
  by (simp add: reorder_rows_def)

lemma reorder_rows_append [simp]:
  "reorder_rows p (df @ df') = reorder_rows p df @ reorder_rows p df'"
  by (simp add: reorder_rows_def)

lemma reorder_rows_aligned: "aligned (length p) (reorder_rows p df)"
  by (induction df) auto

lemma reorder_rows_nrows: "df \<noteq> [] \<Longrightarrow> nrows (reorder_rows p df) = length p"
  by (cases df) auto

lemma map_of_reorder_rows:
  "map_of (reorder_rows p df) name = map_option (reorder_col p) (map_of df name)"
  by (induction df) auto

lemma getitem_reorder:
  "getitem (reorder_rows p df) name = map_sum id (reorder_col p) (getitem df name)"
  by (simp add: getitem_def map_of_reorder_rows split: option.splits)

lemma collect_map_sum:
  "collect (map (\<lambda>x. map_sum id f (g x)) xs) = map_sum id (map f) (collect (map g xs))"
  by (induction xs) (auto split: sum.splits)

lemma getitems_reorder:
  "getitems (reorder_rows p df) names = map_sum id (map (reorder_col p)) (getitems df names)"
  unfolding getitems_def getitem_reorder by (rule collect_map_sum)

lemma replace_col_reorder:
  "replace_col name (reorder_col p c) (reorder_rows p df) = reorder_rows p (replace_col name c df)"
  by (induction df) auto

lemma assign_reorder:
  "assign (reorder_rows p df) name (reorder_col p c) = reorder_rows p (assign df name c)"
  by (simp add: assign_def replace_col_reorder)

lemma setitem_aligned_Inr:
  assumes "aligned n df" "col_len c = n"
  shows "setitem df name c = Inr (assign df name c)"
proof (cases "df = []")
  case True
  then show ?thesis by (simp add: setitem_def)
next
  case False
  then show ?thesis
    using aligned_nrows [OF assms(1) False] assms(2) by (simp add: setitem_def)
qed

lemma setitem_reorder:
  assumes "aligned n df" "col_len c = n" "length p = n"
  shows "setitem (reorder_rows p df) name (reorder_col p c) = map_sum id (reorder_rows p) (setitem df name c)"
proof -
  have "aligned n (reorder_rows p df)"
    using reorder_rows_aligned [of p df] assms(3) by simp
  then have "setitem (reorder_rows p df) name (reorder_col p c)
      = Inr (assign (reorder_rows p df) name (reorder_col p c))"
    using setitem_aligned_Inr [of n "reorder_rows p df" "reorder_col p c" name] assms(3) by simp
  then show ?thesis
    using setitem_aligned_Inr [OF assms(1,2)] by (simp add: assign_reorder)
qed

lemma fold_assign_reorder:
  "fold (\<lambda>(name, c) d. assign d name c) (zip names (map (reorder_col p) cols)) (reorder_rows p df)
     = reorder_rows p (fold (\<lambda>(name, c) d. assign d name c) (zip names cols) df)"
proof (induction cols arbitrary: names df)
  case Nil
  then show ?case by simp
next
  case (Cons c cols)
  show ?case
  proof (cases names)
    case Nil
    then show ?thesis by simp
  next
    case (Cons name names')
    then show ?thesis
      using Cons.IH [of names' "assign df name c"] by (simp add: assign_reorder)
  qed
qed

lemma setitems_reorder:
  "setitems (reorder_rows p df) names (map (reorder_col p) cols)
     = map_sum id (reorder_rows p) (setitems df names cols)"
  by (simp add: setitems_def fold_assign_reorder)

lemma select_numeric_reorder:
  assumes "row_order p n" "aligned n df"
  shows "select_numeric (reorder_rows p df) = map (\<lambda>(name, xs). (name, reorder p xs)) (select_numeric df)"
  using assms(2)
proof (induction df rule: select_numeric.induct)
  case (3 name xs df)
  then have "length xs = n" by simp
  then show ?case
    using 3 reorder_map_rows [OF assms(1), of xs "\<lambda>i. Some (real_of_int i)"] by simp
qed simp_all

lemma select_object_reorder:
  "select_object (reorder_rows p df) = map (\<lambda>(name, xs). (name, reorder p xs)) (select_object df)"
  by (induction df rule: select_object.induct) simp_all

lemma numeric_columns_reorder [simp]: "numeric_columns (reorder_rows p df) = numeric_columns df"
  unfolding numeric_columns_def
  by (induction df rule: select_numeric.induct) simp_all

lemma categorical_columns_reorder [simp]:
  "categorical_columns (reorder_rows p df) = categorical_columns df"
  unfolding categorical_columns_def
  by (induction df rule: select_object.induct) simp_all

lemma SimpleImputer_median_reorder:
  assumes "row_order p n" "\<And>xs. xs \<in> set cols \<Longrightarrow> length xs = n"
  shows "SimpleImputer_median (map (reorder p) cols)
           = map_sum id (map (reorder p)) (SimpleImputer_median cols)"
proof (cases "cols = []")
  case True
  then show ?thesis by (simp add: SimpleImputer_median_def)
next
  case False
  then have "length (hd cols) = n" using assms(2) by simp
  then have z: "length (hd (map (reorder p) cols)) = 0 \<longleftrightarrow> length (hd cols) = 0"
    using False row_order_length [OF assms(1)] by (simp add: hd_map)
  have "map impute_median (map (reorder p) cols) = map (map_option (reorder p)) (map impute_median cols)"
    using assms(2) impute_median_reorder [OF assms(1)] by simp
  then have "present (map impute_median (map (reorder p) cols))
      = map (reorder p) (present (map impute_median cols))"
    by (simp only: present_map_option)
  then show ?thesis
    using False z unfolding SimpleImputer_median_def by simp
qed

lemma SimpleImputer_most_frequent_reorder:
  assumes "row_order p n" "\<And>xs. xs \<in> set cols \<Longrightarrow> length xs = n"
  shows "SimpleImputer_most_frequent (map (reorder p) cols)
           = map_sum id (map (reorder p)) (SimpleImputer_most_frequent cols)"
proof (cases "cols = []")
  case True
  then show ?thesis by (simp add: SimpleImputer_most_frequent_def)
next
  case False
  then have "length (hd cols) = n" using assms(2) by simp
  then have z: "length (hd (map (reorder p) cols)) = 0 \<longleftrightarrow> length (hd cols) = 0"
    using False row_order_length [OF assms(1)] by (simp add: hd_map)
  have "map impute_most_frequent (map (reorder p) cols)
      = map (map_option (reorder p)) (map impute_most_frequent cols)"
    using assms(2) impute_most_frequent_reorder [OF assms(1)] by simp
  then have "present (map impute_most_frequent (map (reorder p) cols))
      = map (reorder p) (present (map impute_most_frequent cols))"
    by (simp only: present_map_option)
  then show ?thesis
    using False z unfolding SimpleImputer_most_frequent_def by simp
qed

lemma impute_numeric_reorder:
  assumes "row_order p n" "aligned n data"
  shows "impute_numeric (reorder_rows p data) = map_sum id (reorder_rows p) (impute_numeric data)"
proof -
  let ?cols = "map snd (select_numeric data)"
  have len: "length xs = n" if "xs \<in> set ?cols" for xs
    using that select_numeric_length [OF assms(2)] by auto
  have sel: "map snd (select_numeric (reorder_rows p data)) = map (reorder p) ?cols"
    unfolding select_numeric_reorder [OF assms] by (simp add: comp_def case_prod_unfold)
  have imp: "SimpleImputer_median (map (reorder p) ?cols)
      = map_sum id (map (reorder p)) (SimpleImputer_median ?cols)"
    by (rule SimpleImputer_median_reorder [OF assms(1)]) (rule len)
  show ?thesis
  proof (cases "SimpleImputer_median ?cols")
    case (Inl e)
    then show ?thesis using imp sel by (simp add: impute_numeric_def)
  next
    case (Inr filled)
    have fl: "length vs = n" if "vs \<in> set filled" for vs
      by (rule SimpleImputer_median_lengths [OF Inr _ that]) (rule len)
    have "map Some (reorder p vs) = reorder p (map Some vs)" if "vs \<in> set filled" for vs
      using reorder_map_rows [OF assms(1) fl [OF that], of Some] by simp
    then have eq: "map (\<lambda>vs. FloatCol (map Some vs)) (map (reorder p) filled)
        = map (reorder_col p) (map (\<lambda>vs. FloatCol (map Some vs)) filled)"
      by simp
    have "impute_numeric (reorder_rows p data)
        = setitems (reorder_rows p data) (numeric_columns data)
            (map (\<lambda>vs. FloatCol (map Some vs)) (map (reorder p) filled))"
      unfolding impute_numeric_def sel imp Inr by simp
    also have "\<dots> = map_sum id (reorder_rows p)
        (setitems data (numeric_columns data) (map (\<lambda>vs. FloatCol (map Some vs)) filled))"
      unfolding eq by (rule setitems_reorder)
    also have "\<dots> = map_sum id (reorder_rows p) (impute_numeric data)"
      unfolding impute_numeric_def Inr by simp
    finally show ?thesis .
  qed
qed

lemma impute_categorical_reorder:
  assumes "row_order p n" "aligned n data"
  shows "impute_categorical (reorder_rows p data) = map_sum id (reorder_rows p) (impute_categorical data)"
proof -
  let ?cols = "map snd (select_object data)"
  have len: "length xs = n" if "xs \<in> set ?cols" for xs
    using that select_object_length [OF assms(2)] by auto
  have sel: "map snd (select_object (reorder_rows p data)) = map (reorder p) ?cols"
    unfolding select_object_reorder by (simp add: comp_def case_prod_unfold)
  have imp: "SimpleImputer_most_frequent (map (reorder p) ?cols)
      = map_sum id (map (reorder p)) (SimpleImputer_most_frequent ?cols)"
    by (rule SimpleImputer_most_frequent_reorder [OF assms(1)]) (rule len)
  show ?thesis
  proof (cases "SimpleImputer_most_frequent ?cols")
    case (Inl e)
    then show ?thesis using imp sel by (simp add: impute_categorical_def)
  next
    case (Inr filled)
    have fl: "length vs = n" if "vs \<in> set filled" for vs
      by (rule SimpleImputer_most_frequent_lengths [OF Inr _ that]) (rule len)
    have "map Some (reorder p vs) = reorder p (map Some vs)" if "vs \<in> set filled" for vs
      using reorder_map_rows [OF assms(1) fl [OF that], of Some] by simp
    then have eq: "map (\<lambda>vs. ObjectCol (map Some vs)) (map (reorder p) filled)
        = map (reorder_col p) (map (\<lambda>vs. ObjectCol (map Some vs)) filled)"
      by simp
    have "impute_categorical (reorder_rows p data)
        = setitems (reorder_rows p data) (categorical_columns data)
            (map (\<lambda>vs. ObjectCol (map Some vs)) (map (reorder p) filled))"
      unfolding impute_categorical_def sel imp Inr by simp
    also have "\<dots> = map_sum id (reorder_rows p)
        (setitems data (categorical_columns data) (map (\<lambda>vs. ObjectCol (map Some vs)) filled))"
      unfolding eq by (rule setitems_reorder)
    also have "\<dots> = map_sum id (reorder_rows p) (impute_categorical data)"
      unfolding impute_categorical_def Inr by simp
    finally show ?thesis .
  qed
qed

lemma dummies_reorder:
  assumes "row_order p n" "length xs = n"
  shows "dummies (name, reorder p xs) = reorder_rows p (dummies (name, xs))"
proof -
  have c: "categories (present (reorder p xs)) = categories (present xs)"
    using categories_set_cong [OF present_reorder_set [OF assms]] .
  have "map (\<lambda>x. x = Some v) (reorder p xs) = reorder p (map (\<lambda>x. x = Some v) xs)" for v
    using reorder_map_rows [OF assms, of "\<lambda>x. x = Some v"] by simp
  then show ?thesis
    unfolding dummies_def prod.case c by (simp add: reorder_rows_def)
qed

lemma get_dummies_reorder:
  assumes "row_order p n" "\<And>name xs. (name, xs) \<in> set cols \<Longrightarrow> length xs = n"
  shows "get_dummies (map (\<lambda>(name, xs). (name, reorder p xs)) cols) = reorder_rows p (get_dummies cols)"
  using assms(2)
proof (induction cols)
  case Nil
  then show ?case by (simp add: get_dummies_def)
next
  case (Cons nc cols)
  obtain name xs where nc: "nc = (name, xs)" by (cases nc)
  have "length xs = n" using Cons.prems [of name xs] nc by simp
  then have d: "dummies (name, reorder p xs) = reorder_rows p (dummies (name, xs))"
    by (rule dummies_reorder [OF assms(1)])
  have "get_dummies (map (\<lambda>(name, xs). (name, reorder p xs)) cols) = reorder_rows p (get_dummies cols)"
    by (rule Cons.IH) (use Cons.prems in auto)
  then show ?case
    using d by (simp add: get_dummies_def nc)
qed

lemma high_cardinality_columns_reorder:
  assumes "row_order p n" "aligned n data"
  shows "high_cardinality_columns (reorder_rows p data) cats = high_cardinality_columns data cats"
proof -
  have "(case map_of (reorder_rows p data) col of None \<Rightarrow> False | Some c \<Rightarrow> 10 < nunique c)
      = (case map_of data col of None \<Rightarrow> False | Some c \<Rightarrow> 10 < nunique c)" for col
  proof (cases "map_of data col")
    case None
    then show ?thesis by (simp add: map_of_reorder_rows)
  next
    case (Some c)
    then have "col_len c = n"
      using aligned_mem [OF assms(2)] map_of_SomeD by fastforce
    then show ?thesis
      using Some nunique_reorder [OF assms(1)] by (simp add: map_of_reorder_rows)
  qed
  then show ?thesis
    by (simp add: high_cardinality_columns_def)
qed

lemma encode_columns_reorder:
  assumes "row_order p n"
  shows "aligned n data \<Longrightarrow>
         encode_columns (reorder_rows p data) cols = map_sum id (reorder_rows p) (encode_columns data cols)"
proof (induction cols arbitrary: data)
  case Nil
  then show ?case by simp
next
  case (Cons col cols)
  show ?case
  proof (cases "getitem data col")
    case (Inl e)
    then show ?thesis by (simp add: getitem_reorder)
  next
    case c: (Inr c)
    have cl: "col_len c = n"
      using aligned_mem [OF Cons.prems getitem_mem [OF c]] .
    show ?thesis
    proof (cases "LabelEncoder_fit_transform c")
      case (Inl e)
      then show ?thesis
        using c LabelEncoder_reorder [OF assms cl] by (simp add: getitem_reorder)
    next
      case ks: (Inr ks)
      have kl: "col_len (IntCol ks) = n"
        using LabelEncoder_length [OF ks] cl by simp
      have s0: "setitem data (col @ ''_encoded'') (IntCol ks)
          = Inr (assign data (col @ ''_encoded'') (IntCol ks))"
        by (rule setitem_aligned_Inr [OF Cons.prems kl])
      have s1: "setitem (reorder_rows p data) (col @ ''_encoded'') (IntCol (reorder p ks))
          = Inr (reorder_rows p (assign data (col @ ''_encoded'') (IntCol ks)))"
        using setitem_reorder [OF Cons.prems kl row_order_length [OF assms], of "col @ ''_encoded''"] s0
        by simp
      have al: "aligned n (assign data (col @ ''_encoded'') (IntCol ks))"
        by (rule aligned_assign [OF Cons.prems kl])
      show ?thesis
        using c ks s0 s1 LabelEncoder_reorder [OF assms cl] Cons.IH [OF al]
        by (simp add: getitem_reorder)
    qed
  qed
qed

lemma collect_map_sum_on:
  assumes "\<And>x. x \<in> set xs \<Longrightarrow> h x = map_sum id f (g x)"
  shows "collect (map h xs) = map_sum id (map f) (collect (map g xs))"
proof -
  have "map h xs = map (\<lambda>x. map_sum id f (g x)) xs"
    using assms by simp
  then show ?thesis
    by (simp only: collect_map_sum)
qed

lemma MinMaxScaler_reorder:
  assumes "row_order p n" "\<And>c. c \<in> set cols \<Longrightarrow> col_len c = n"
  shows "MinMaxScaler_fit_transform (map (reorder_col p) cols)
           = map_sum id (map (reorder p)) (MinMaxScaler_fit_transform cols)"
proof (cases "cols = []")
  case True
  then show ?thesis by (simp add: MinMaxScaler_fit_transform_def)
next
  case False
  then have "col_len (hd cols) = n" using assms(2) by simp
  then have z: "col_len (hd (map (reorder_col p) cols)) = 0 \<longleftrightarrow> col_len (hd cols) = 0"
    using False row_order_length [OF assms(1)] by (simp add: hd_map)
  have fl: "collect (map as_float (map (reorder_col p) cols))
      = map_sum id (map (reorder p)) (collect (map as_float cols))"
    unfolding map_map
    by (rule collect_map_sum_on) (simp add: as_float_reorder [OF assms(1)] assms(2))
  show ?thesis
  proof (cases "collect (map as_float cols)")
    case (Inl e)
    then show ?thesis
      using fl False z by (simp add: MinMaxScaler_fit_transform_def)
  next
    case (Inr fs)
    have "length xs = n" if "xs \<in> set fs" for xs
    proof -
      from that obtain k where k: "k < length fs" "fs ! k = xs" by (auto simp: in_set_conv_nth)
      have l: "length fs = length cols" using collect_Inr_length [OF Inr] by simp
      have "as_float (cols ! k) = Inr xs"
        using collect_map_all [OF Inr] k l by simp
      then show ?thesis
        using as_float_length assms(2) [of "cols ! k"] k l by fastforce
    qed
    then have "map minmax_fit_transform (map (reorder p) fs) = map (reorder p) (map minmax_fit_transform fs)"
      using minmax_fit_transform_reorder [OF assms(1)] by simp
    then show ?thesis
      using fl Inr False z by (simp add: MinMaxScaler_fit_transform_def)
  qed
qed

lemma zip_reorder_cols:
  "zip names (map (reorder_col p) cols) = reorder_rows p (zip names cols)"
  by (simp add: zip_map2 reorder_rows_def)

lemma combine_features_reorder:
  assumes "row_order p n" "aligned n data"
  shows "combine_features (reorder_rows p data) nums (reorder_rows p ce) high
           = map_sum id (reorder_rows p) (combine_features data nums ce high)"
proof (cases "getitems data nums")
  case (Inl e)
  then show ?thesis by (simp add: combine_features_def getitems_reorder)
next
  case ncols: (Inr ncols)
  have nl: "col_len c = n" if "c \<in> set ncols" for c
    using getitems_aligned [OF ncols assms(2) that] .
  have sc: "MinMaxScaler_fit_transform (map (reorder_col p) ncols)
      = map_sum id (map (reorder p)) (MinMaxScaler_fit_transform ncols)"
    by (rule MinMaxScaler_reorder [OF assms(1)]) (rule nl)
  show ?thesis
  proof (cases "MinMaxScaler_fit_transform ncols")
    case (Inl e)
    then show ?thesis using ncols sc by (simp add: combine_features_def getitems_reorder)
  next
    case scaled: (Inr numeric_scaled)
    have fc: "map FloatCol (map (reorder p) numeric_scaled)
        = map (reorder_col p) (map FloatCol numeric_scaled)"
      by simp
    show ?thesis
    proof (cases "getitems data (map (\<lambda>col. col @ ''_encoded'') high)")
      case (Inl e)
      then show ?thesis
        using ncols sc scaled by (simp add: combine_features_def getitems_reorder)
    next
      case (Inr ecols)
      then show ?thesis
        using ncols sc scaled
        by (simp add: combine_features_def getitems_reorder fc zip_reorder_cols
            del: map_map)
    qed
  qed
qed

lemma processed_features_aligned:
  assumes "aligned n data" "processed_features data = Inr (data3, combined)"
  shows "aligned n data3 \<and> aligned n combined"
proof -
  from assms(2) obtain data1 data2 where
    d1: "impute_numeric data = Inr data1" and d2: "impute_categorical data1 = Inr data2"
    and d3: "encode_columns data2 (high_cardinality_columns data2 (categorical_columns data)) = Inr data3"
    and c: "combine_features data3 (numeric_columns data) (get_dummies (select_object data2))
              (high_cardinality_columns data2 (categorical_columns data)) = Inr combined"
    by (auto simp: processed_features_def Let_def split: sum.splits)
  have a1: "aligned n data1" by (rule impute_numeric_aligned [OF assms(1) d1])
  have a2: "aligned n data2" by (rule impute_categorical_aligned [OF a1 d2])
  have a3: "aligned n data3" by (rule encode_columns_aligned [OF a2 d3])
  have ad: "aligned n (get_dummies (select_object data2))"
    by (rule get_dummies_aligned) (rule select_object_length [OF a2])
  show ?thesis
    using a3 combine_features_aligned [OF a3 ad c] by simp
qed

lemma processed_features_reorder:
  assumes "row_order p n" "aligned n data"
  shows "processed_features (reorder_rows p data)
           = map_sum id (map_prod (reorder_rows p) (reorder_rows p)) (processed_features data)"
proof (cases "impute_numeric data")
  case (Inl e)
  then show ?thesis
    using impute_numeric_reorder [OF assms] by (simp add: processed_features_def)
next
  case d1: (Inr data1)
  have a1: "aligned n data1" by (rule impute_numeric_aligned [OF assms(2) d1])
  have r1: "impute_numeric (reorder_rows p data) = Inr (reorder_rows p data1)"
    using impute_numeric_reorder [OF assms] d1 by simp
  show ?thesis
  proof (cases "impute_categorical data1")
    case (Inl e)
    then show ?thesis
      using d1 r1 impute_categorical_reorder [OF assms(1) a1] by (simp add: processed_features_def)
  next
    case d2: (Inr data2)
    have a2: "aligned n data2" by (rule impute_categorical_aligned [OF a1 d2])
    have r2: "impute_categorical (reorder_rows p data1) = Inr (reorder_rows p data2)"
      using impute_categorical_reorder [OF assms(1) a1] d2 by simp
    let ?high = "high_cardinality_columns data2 (categorical_columns data)"
    have h: "high_cardinality_columns (reorder_rows p data2) (categorical_columns data) = ?high"
      by (rule high_cardinality_columns_reorder [OF assms(1) a2])
    have g: "get_dummies (select_object (reorder_rows p data2))
        = reorder_rows p (get_dummies (select_object data2))"
      unfolding select_object_reorder
      by (rule get_dummies_reorder [OF assms(1)]) (rule select_object_length [OF a2])
    show ?thesis
    proof (cases "encode_columns data2 ?high")
      case (Inl e)
      then show ?thesis
        using d1 r1 d2 r2 h encode_columns_reorder [OF assms(1) a2, of ?high]
        by (simp add: processed_features_def)
    next
      case d3: (Inr data3)
      have a3: "aligned n data3" by (rule encode_columns_aligned [OF a2 d3])
      have r3: "encode_columns (reorder_rows p data2) ?high = Inr (reorder_rows p data3)"
        using encode_columns_reorder [OF assms(1) a2, of ?high] d3 by simp
      have c: "combine_features (reorder_rows p data3) (numeric_columns data)
                 (reorder_rows p (get_dummies (select_object data2))) ?high
          = map_sum id (reorder_rows p)
              (combine_features data3 (numeric_columns data) (get_dummies (select_object data2)) ?high)"
        by (rule combine_features_reorder [OF assms(1) a3])
      show ?thesis
        using d1 r1 d2 r2 h g d3 r3 c
        by (cases "combine_features data3 (numeric_columns data) (get_dummies (select_object data2)) ?high")
           (simp_all add: processed_features_def)
    qed
  qed
qed

lemma rows_of_reorder:
  assumes "row_order p n" "\<And>c. c \<in> set cols \<Longrightarrow> length c = n"
  shows "rows_of n (map (reorder p) cols) = reorder p (rows_of n cols)"
proof -
  have lp: "length p = n" by (rule row_order_length [OF assms(1)])
  have "rows_of n (map (reorder p) cols) = map (\<lambda>i. map (\<lambda>c. c ! (p ! i)) cols) [0..<n]"
    unfolding rows_of_def using lp by (simp add: reorder_def)
  also have "\<dots> = map (\<lambda>j. map (\<lambda>c. c ! j) cols) (map (\<lambda>i. p ! i) [0..<length p])"
    using lp by simp
  also have "\<dots> = map (\<lambda>j. map (\<lambda>c. c ! j) cols) p"
    by (simp only: map_nth)
  also have "\<dots> = reorder p (rows_of n cols)"
    unfolding rows_of_def using row_order_less [OF assms(1)] by (simp add: reorder_def)
  finally show ?thesis .
qed

lemma PCA_fit_transform_reorder:
  assumes "row_order p n" "aligned n df" "\<And>X. pca (reorder p X) = pca X"
  shows "PCA_fit_transform pca (reorder_rows p df) = map_sum id (reorder_rows p) (PCA_fit_transform pca df)"
proof (cases "df = []")
  case True
  then show ?thesis by (simp add: PCA_fit_transform_def)
next
  case False
  have lp: "length p = n" by (rule row_order_length [OF assms(1)])
  have nr: "nrows df = n" "nrows (reorder_rows p df) = n"
    using aligned_nrows [OF assms(2) False] reorder_rows_nrows [OF False] lp by simp_all
  have fv: "collect (map (finite_values \<circ> snd) (reorder_rows p df))
      = map_sum id (map (reorder p)) (collect (map (finite_values \<circ> snd) df))"
  proof -
    have "map (finite_values \<circ> snd) (reorder_rows p df)
        = map (\<lambda>x. finite_values (reorder_col p (snd x))) df"
      by (simp add: reorder_rows_def case_prod_unfold)
    moreover have "collect (map (\<lambda>x. finite_values (reorder_col p (snd x))) df)
        = map_sum id (map (reorder p)) (collect (map (finite_values \<circ> snd) df))"
    proof (rule collect_map_sum_on)
      fix x assume "x \<in> set df"
      then have "col_len (snd x) = n"
        using aligned_mem [OF assms(2), of "fst x" "snd x"] by simp
      then show "finite_values (reorder_col p (snd x)) = map_sum id (reorder p) ((finite_values \<circ> snd) x)"
        using finite_values_reorder [OF assms(1)] by simp
    qed
    ultimately show ?thesis by simp
  qed
  show ?thesis
  proof (cases "n = 0")
    case True
    then show ?thesis using False nr by (simp add: PCA_fit_transform_def)
  next
    case n: False
    show ?thesis
    proof (cases "collect (map (finite_values \<circ> snd) df)")
      case (Inl e)
      then show ?thesis using False nr n fv by (simp add: PCA_fit_transform_def)
    next
      case (Inr cols)
      have cl: "length c = n" if "c \<in> set cols" for c
      proof -
        from that obtain k where k: "k < length cols" "cols ! k = c" by (auto simp: in_set_conv_nth)
        have l: "length cols = length df" using collect_Inr_length [OF Inr] by simp
        have "(finite_values \<circ> snd) (df ! k) = Inr c"
          using collect_map_all [OF Inr] k l by simp
        then have "length c = col_len (snd (df ! k))"
          using finite_values_length by simp
        moreover have "col_len (snd (df ! k)) = n"
          using aligned_mem [OF assms(2), of "fst (df ! k)" "snd (df ! k)"] k l by simp
        ultimately show ?thesis by simp
      qed
      define X where "X = rows_of n cols"
      define Z where "Z = map (project (pca X)) X"
      have lz: "length Z = n" by (simp add: Z_def X_def rows_of_def)
      have X': "rows_of n (map (reorder p) cols) = reorder p X"
        unfolding X_def by (rule rows_of_reorder [OF assms(1)]) (rule cl)
      have Z': "map (project (pca X)) (reorder p X) = reorder p Z"
        unfolding Z_def
        using reorder_map_rows [OF assms(1), of X "project (pca X)"] by (simp add: X_def rows_of_def)
      have Zk: "map ((\<lambda>z. Some (z ! k)) \<circ> project (pca X)) (reorder p X)
          = map (\<lambda>z. Some (z ! k)) (reorder p Z)" for k
        unfolding Z' [symmetric] by simp
      have col: "FloatCol (map (\<lambda>z. Some (z ! k)) (reorder p Z))
          = reorder_col p (FloatCol (map (\<lambda>z. Some (z ! k)) Z))" for k
        using reorder_map_rows [OF assms(1) lz, of "\<lambda>z. Some (z ! k)"] by simp
      have a: "PCA_fit_transform pca df
          = Inr (map (\<lambda>k. (''PC'' @ string_of_nat (k + 1), FloatCol (map (\<lambda>z. Some (z ! k)) Z)))
                   [0..<length (pca_components (pca X))])"
        using False n nr Inr by (simp add: PCA_fit_transform_def Let_def X_def Z_def)
      have b: "PCA_fit_transform pca (reorder_rows p df)
          = Inr (map (\<lambda>k. (''PC'' @ string_of_nat (k + 1), FloatCol (map (\<lambda>z. Some (z ! k)) (reorder p Z))))
                   [0..<length (pca_components (pca X))])"
        using False n nr fv Inr X' Zk assms(3)
        by (simp add: PCA_fit_transform_def Let_def)
      show ?thesis
        unfolding a b col by (simp add: reorder_rows_def)
    qed
  qed
qed

lemma preprocess_data_reorder:
  assumes "row_order p n" "aligned n data" "\<And>X. pca (reorder p X) = pca X"
  shows "preprocess_data pca (reorder_rows p data)
           = map_sum id (map_prod (reorder_rows p) (reorder_rows p)) (preprocess_data pca data)"
proof (cases "processed_features data")
  case (Inl e)
  then show ?thesis
    using processed_features_reorder [OF assms(1,2)] by (simp add: preprocess_data_def)
next
  case (Inr r)
  obtain data3 combined where r: "r = (data3, combined)" by (cases r)
  have al: "aligned n combined"
    using processed_features_aligned [OF assms(2)] Inr r by simp
  have pf: "processed_features (reorder_rows p data) = Inr (reorder_rows p data3, reorder_rows p combined)"
    using processed_features_reorder [OF assms(1,2)] Inr r by simp
  show ?thesis
    using Inr r pf PCA_fit_transform_reorder [where pca = pca, OF assms(1) al assms(3)]
    by (cases "PCA_fit_transform pca combined") (simp_all add: preprocess_data_def)
qed

lemma transaction_cols_reorder [simp]: "transaction_cols (reorder_rows p data) = transaction_cols data"
  by (simp add: transaction_cols_def)

lemma savings_cols_reorder [simp]: "savings_cols (reorder_rows p data) = savings_cols data"
  by (simp add: savings_cols_def)

lemma row_mean_reorder:
  assumes "i < length p"
  shows "row_mean (map (reorder p) cols) i = row_mean cols (p ! i)"
proof -
  have "map (\<lambda>c. c ! i) (map (reorder p) cols) = map (\<lambda>c. c ! (p ! i)) cols"
    using assms by (simp add: reorder_nth)
  then show ?thesis
    unfolding row_mean_def by (simp only:)
qed

lemma score_column_reorder:
  assumes "row_order p n"
  shows "map (\<lambda>i. weighted wa (row_mean (map (reorder p) nt) i) wb (row_mean (map (reorder p) ns) i)) [0..<n]
           = reorder p (map (\<lambda>i. weighted wa (row_mean nt i) wb (row_mean ns i)) [0..<n])"
proof -
  let ?F = "\<lambda>j. weighted wa (row_mean nt j) wb (row_mean ns j)"
  have lp: "length p = n" by (rule row_order_length [OF assms])
  have "map (\<lambda>i. weighted wa (row_mean (map (reorder p) nt) i) wb (row_mean (map (reorder p) ns) i)) [0..<n]
      = map (\<lambda>i. ?F (p ! i)) [0..<length p]"
    using lp by (simp add: row_mean_reorder)
  also have "\<dots> = map ?F (map (\<lambda>i. p ! i) [0..<length p])"
    by simp
  also have "\<dots> = map ?F p"
    by (simp only: map_nth)
  also have "\<dots> = reorder p (map ?F [0..<n])"
    using reorder_upt [of p n ?F] row_order_less [OF assms] by simp
  finally show ?thesis .
qed

lemma MinMaxScaler_nonempty: "MinMaxScaler_fit_transform cols = Inr out \<Longrightarrow> cols \<noteq> []"
  by (auto simp: MinMaxScaler_fit_transform_def)

lemma engagement_reorder:
  assumes "row_order p n" "aligned n data" "aligned n processed_data"
  shows "calculate_financial_engagement_score (reorder_rows p data) (reorder_rows p processed_data)
           = map_sum id (reorder_rows p) (calculate_financial_engagement_score data processed_data)"
proof (cases "getitems data (transaction_cols data)")
  case (Inl e)
  then show ?thesis
    by (simp add: calculate_financial_engagement_score_def getitems_reorder)
next
  case tcols: (Inr tcols)
  have tl: "col_len c = n" if "c \<in> set tcols" for c
    using getitems_aligned [OF tcols assms(2) that] .
  have st: "MinMaxScaler_fit_transform (map (reorder_col p) tcols)
      = map_sum id (map (reorder p)) (MinMaxScaler_fit_transform tcols)"
    by (rule MinMaxScaler_reorder [OF assms(1)]) (rule tl)
  show ?thesis
  proof (cases "MinMaxScaler_fit_transform tcols")
    case (Inl e)
    then show ?thesis
      using tcols st by (simp add: calculate_financial_engagement_score_def getitems_reorder)
  next
    case nt: (Inr nt)
    have "tcols \<noteq> []" by (rule MinMaxScaler_nonempty [OF nt])
    then have ne: "data \<noteq> []"
      using tcols by (auto simp: getitems_def transaction_cols_def)
    have nr: "nrows data = n" "nrows (reorder_rows p data) = n"
      using aligned_nrows [OF assms(2) ne] reorder_rows_nrows [OF ne] row_order_length [OF assms(1)]
      by simp_all
    show ?thesis
    proof (cases "getitems data (savings_cols data)")
      case (Inl e)
      then show ?thesis
        using tcols st nt by (simp add: calculate_financial_engagement_score_def getitems_reorder)
    next
      case scols: (Inr scols)
      have sl: "col_len c = n" if "c \<in> set scols" for c
        using getitems_aligned [OF scols assms(2) that] .
      have ss: "MinMaxScaler_fit_transform (map (reorder_col p) scols)
          = map_sum id (map (reorder p)) (MinMaxScaler_fit_transform scols)"
        by (rule MinMaxScaler_reorder [OF assms(1)]) (rule sl)
      show ?thesis
      proof (cases "MinMaxScaler_fit_transform scols")
        case (Inl e)
        then show ?thesis
          using tcols st nt scols ss
          by (simp add: calculate_financial_engagement_score_def getitems_reorder)
      next
        case ns: (Inr ns)
        let ?col = "map (\<lambda>i. weighted (6/10) (row_mean nt i) (4/10) (row_mean ns i)) [0..<n]"
        have a: "calculate_financial_engagement_score data processed_data
            = setitem processed_data ''financial_engagement_score'' (FloatCol ?col)"
          by (simp add: calculate_financial_engagement_score_def tcols nt scols ns nr)
        have "calculate_financial_engagement_score (reorder_rows p data) (reorder_rows p processed_data)
            = setitem (reorder_rows p processed_data) ''financial_engagement_score''
                (FloatCol (map (\<lambda>i. weighted (6/10) (row_mean (map (reorder p) nt) i)
                                         (4/10) (row_mean (map (reorder p) ns) i)) [0..<n]))"
          by (simp add: calculate_financial_engagement_score_def getitems_reorder
              tcols nt scols ns st ss nr)
        also have "\<dots> = setitem (reorder_rows p processed_data) ''financial_engagement_score''
                (reorder_col p (FloatCol ?col))"
          unfolding score_column_reorder [OF assms(1)] by simp
        also have "\<dots> = map_sum id (reorder_rows p)
                (setitem processed_data ''financial_engagement_score'' (FloatCol ?col))"
          by (rule setitem_reorder [OF assms(3) _ row_order_length [OF assms(1)]]) simp
        finally show ?thesis
          unfolding a .
      qed
    qed
  qed
qed

lemma map_education_reorder:
  assumes "row_order p n" "col_len c = n"
  shows "map_education (reorder_col p c) = reorder p (map_education c)"
proof (cases c)
  case (ObjectCol xs)
  then have "length xs = n" using assms(2) by simp
  then show ?thesis
    using ObjectCol
      reorder_map_rows [OF assms(1), of xs "\<lambda>x. case x of None \<Rightarrow> None | Some s \<Rightarrow> education_mapping s"]
    by simp
next
  case (FloatCol xs)
  then show ?thesis
    using assms(2) row_order_less [OF assms(1)] by (simp add: reorder_def)
next
  case (IntCol xs)
  then show ?thesis
    using assms(2) row_order_less [OF assms(1)] by (simp add: reorder_def)
next
  case (BoolCol xs)
  then show ?thesis
    using assms(2) row_order_less [OF assms(1)] by (simp add: reorder_def)
qed

lemma zip_reorder:
  assumes "row_order p n" "length xs = n" "length ys = n"
  shows "zip (reorder p xs) (reorder p ys) = reorder p (zip xs ys)"
proof -
  have "zip (reorder p xs) (reorder p ys) = map (\<lambda>i. (xs ! i, ys ! i)) p"
    by (simp add: reorder_def zip_map_map zip_same_conv_map)
  also have "\<dots> = map (\<lambda>i. zip xs ys ! i) p"
    using row_order_less [OF assms(1)] assms(2,3) by simp
  finally show ?thesis by (simp add: reorder_def)
qed

lemma MinMaxScaler_single_out:
  assumes "MinMaxScaler_fit_transform [c] = Inr out"
  shows "\<exists>ys. out = [ys] \<and> length ys = col_len c"
proof -
  from assms obtain fs where fs: "collect (map as_float [c]) = Inr fs" and out: "out = map minmax_fit_transform fs"
    by (auto simp: MinMaxScaler_fit_transform_def split: if_splits sum.splits)
  from fs obtain xs where xs: "as_float c = Inr xs" "fs = [xs]"
    by (auto split: sum.splits)
  show ?thesis
    using out xs as_float_length [OF xs(1)] by simp
qed

lemma literacy_reorder:
  assumes "row_order p n" "aligned n data" "aligned n processed_data"
  shows "calculate_financial_literacy_score (reorder_rows p data) (reorder_rows p processed_data)
           = map_sum id (reorder_rows p) (calculate_financial_literacy_score data processed_data)"
proof (cases "getitem data ''education''")
  case (Inl e)
  then show ?thesis
    by (simp add: calculate_financial_literacy_score_def getitem_reorder)
next
  case edu: (Inr education)
  have el: "col_len education = n"
    using aligned_mem [OF assms(2) getitem_mem [OF edu]] .
  have me: "[FloatCol (map_education (reorder_col p education))]
      = map (reorder_col p) [FloatCol (map_education education)]"
    using map_education_reorder [OF assms(1) el] by simp
  have se: "MinMaxScaler_fit_transform [FloatCol (map_education (reorder_col p education))]
      = map_sum id (map (reorder p)) (MinMaxScaler_fit_transform [FloatCol (map_education education)])"
    unfolding me by (rule MinMaxScaler_reorder [OF assms(1)]) (use el in simp)
  show ?thesis
  proof (cases "MinMaxScaler_fit_transform [FloatCol (map_education education)]")
    case (Inl e)
    then show ?thesis
      using edu se by (simp add: calculate_financial_literacy_score_def getitem_reorder)
  next
    case ne: (Inr normalized_education)
    obtain es where es: "normalized_education = [es]" "length es = n"
      using MinMaxScaler_single_out [OF ne] el by auto
    show ?thesis
    proof (cases "getitem data ''quintile''")
      case (Inl e)
      then show ?thesis
        using edu se ne by (simp add: calculate_financial_literacy_score_def getitem_reorder)
    next
      case q: (Inr quintile)
      have ql: "col_len quintile = n"
        using aligned_mem [OF assms(2) getitem_mem [OF q]] .
      have sq: "MinMaxScaler_fit_transform [reorder_col p quintile]
          = map_sum id (map (reorder p)) (MinMaxScaler_fit_transform [quintile])"
        using MinMaxScaler_reorder [OF assms(1), of "[quintile]"] ql by simp
      show ?thesis
      proof (cases "MinMaxScaler_fit_transform [quintile]")
        case (Inl e)
        then show ?thesis
          using edu se ne q sq by (simp add: calculate_financial_literacy_score_def getitem_reorder)
      next
        case ni: (Inr normalized_income)
        obtain inc where inc: "normalized_income = [inc]" "length inc = n"
          using MinMaxScaler_single_out [OF ni] ql by auto
        let ?W = "\<lambda>(ed, inc). weighted (6/10) ed (4/10) inc"
        let ?col = "map ?W (zip es inc)"
        have a: "calculate_financial_literacy_score data processed_data
            = setitem processed_data ''financial_literacy_score'' (FloatCol ?col)"
          by (simp add: calculate_financial_literacy_score_def edu ne q ni es(1) inc(1))
        have lz: "length (zip es inc) = n" using es(2) inc(2) by simp
        have "calculate_financial_literacy_score (reorder_rows p data) (reorder_rows p processed_data)
            = setitem (reorder_rows p processed_data) ''financial_literacy_score''
                (FloatCol (map ?W (zip (reorder p es) (reorder p inc))))"
          by (simp add: calculate_financial_literacy_score_def getitem_reorder edu ne q ni se sq es(1) inc(1))
        also have "\<dots> = setitem (reorder_rows p processed_data) ''financial_literacy_score''
                (reorder_col p (FloatCol ?col))"
          unfolding zip_reorder [OF assms(1) es(2) inc(2)]
          using reorder_map_rows [OF assms(1) lz, of ?W] by simp
        also have "\<dots> = map_sum id (reorder_rows p)
                (setitem processed_data ''financial_literacy_score'' (FloatCol ?col))"
          by (rule setitem_reorder [OF assms(3) _ row_order_length [OF assms(1)]])
             (simp add: es(2) inc(2))
        finally show ?thesis
          unfolding a .
      qed
    qed
  qed
qed

lemma preprocess_data_aligned:
  assumes "aligned n data" "preprocess_data pca data = Inr (data3, processed_data)"
  shows "aligned n data3 \<and> aligned n processed_data"
proof -
  from assms(2) obtain combined where pf: "processed_features data = Inr (data3, combined)"
    and pc: "PCA_fit_transform pca combined = Inr processed_data"
    by (auto simp: preprocess_data_def split: sum.splits)
  show ?thesis
    using processed_features_aligned [OF assms(1) pf] PCA_fit_transform_aligned [OF _ pc] by simp
qed

lemma scored_reorder:
  assumes "row_order p n" "aligned n raw_data" "\<And>X. pca (reorder p X) = pca X"
  shows "scored pca (reorder_rows p raw_data) = map_sum id (reorder_rows p) (scored pca raw_data)"
proof (cases "preprocess_data pca raw_data")
  case (Inl e)
  then show ?thesis
    using preprocess_data_reorder [where pca = pca, OF assms] by (simp add: scored_def)
next
  case (Inr r)
  obtain data p0 where r: "r = (data, p0)" by (cases r)
  have al: "aligned n data" "aligned n p0"
    using preprocess_data_aligned [OF assms(2)] Inr r by simp_all
  have pr: "preprocess_data pca (reorder_rows p raw_data) = Inr (reorder_rows p data, reorder_rows p p0)"
    using preprocess_data_reorder [where pca = pca, OF assms] Inr r by simp
  have en: "calculate_financial_engagement_score (reorder_rows p data) (reorder_rows p p0)
      = map_sum id (reorder_rows p) (calculate_financial_engagement_score data p0)"
    by (rule engagement_reorder [OF assms(1) al])
  show ?thesis
  proof (cases "calculate_financial_engagement_score data p0")
    case (Inl e)
    then show ?thesis
      using Inr r pr en by (simp add: scored_def)
  next
    case p1: (Inr p1)
    have a1: "aligned n p1" by (rule engagement_aligned [OF al p1])
    show ?thesis
      using Inr r pr en p1 literacy_reorder [OF assms(1) al(1) a1]
      by (simp add: scored_def)
  qed
qed

lemma literacy_aligned_any:
  assumes "aligned n data" "aligned n p" "calculate_financial_literacy_score data p = Inr p'"
  shows "aligned n p'"
proof -
  from assms(3) obtain education ne quintile ni where
    edu: "getitem data ''education'' = Inr education"
    and ne: "MinMaxScaler_fit_transform [FloatCol (map_education education)] = Inr ne"
    and q: "getitem data ''quintile'' = Inr quintile"
    and ni: "MinMaxScaler_fit_transform [quintile] = Inr ni"
    by (auto simp: calculate_financial_literacy_score_def split: sum.splits)
  have el: "col_len education = n"
    using aligned_mem [OF assms(1) getitem_mem [OF edu]] .
  have ql: "col_len quintile = n"
    using aligned_mem [OF assms(1) getitem_mem [OF q]] .
  obtain es where es: "ne = [es]" "length es = n"
    using MinMaxScaler_single_out [OF ne] el by auto
  obtain inc where inc: "ni = [inc]" "length inc = n"
    using MinMaxScaler_single_out [OF ni] ql by auto
  have "setitem p ''financial_literacy_score''
      (FloatCol (map (\<lambda>(ed, inc). weighted (6/10) ed (4/10) inc) (zip es inc))) = Inr p'"
    using assms(3) by (simp add: calculate_financial_literacy_score_def edu ne q ni es(1) inc(1))
  then show ?thesis
    by (rule setitem_aligned [OF assms(2), rotated]) (simp add: es(2) inc(2))
qed

lemma cluster_aligned:
  assumes "aligned n t" "cluster_financial_exclusion lloyd t = Inr r"
  shows "aligned n r"
proof -
  from assms(2) obtain km labels clustered excluded where
    k: "KMeans_fit_predict lloyd t = Inr (km, labels)"
    and c: "setitem t ''exclusion_cluster'' (IntCol (map int labels)) = Inr clustered"
    and r: "setitem clustered ''financial_exclusion_label'' (BoolCol (exclusion_label labels excluded)) = Inr r"
    by (auto simp: cluster_financial_exclusion_def split: sum.splits)
  have l: "length labels = n" by (rule KMeans_labels_length [OF assms(1) k])
  have "aligned n clustered"
    by (rule setitem_aligned [OF assms(1) _ c]) (simp add: l)
  then show ?thesis
    by (rule setitem_aligned [OF _ _ r]) (simp add: l exclusion_label_def)
qed

lemma scored_aligned:
  assumes "aligned n t" "scored pca t = Inr r"
  shows "aligned n r \<and> nrows r = n \<and> nrows t = n"
proof -
  from assms(2) obtain d p0 p1 where pre: "preprocess_data pca t = Inr (d, p0)"
    and en: "calculate_financial_engagement_score d p0 = Inr p1"
    and li: "calculate_financial_literacy_score d p1 = Inr r"
    by (auto simp: scored_def split: sum.splits)
  have al: "aligned n d" "aligned n p0"
    using preprocess_data_aligned [OF assms(1) pre] by simp_all
  have a1: "aligned n p1" by (rule engagement_aligned [OF al en])
  have a2: "aligned n r" by (rule literacy_aligned_any [OF al(1) a1 li])
  have "r \<noteq> []" by (rule literacy_nonempty [OF li])
  then have nr: "nrows r = n" by (rule aligned_nrows [OF a2])
  have "t \<noteq> []"
    using pre
    by (auto simp: preprocess_data_def processed_features_def impute_numeric_def
        SimpleImputer_median_def split: sum.splits if_splits)
  then have "nrows t = n" by (rule aligned_nrows [OF assms(1)])
  then show ?thesis using a2 nr by simp
qed

lemma MinMaxScaler_all_lengths:
  assumes "list_all (\<lambda>c. col_len c = n) cols" "MinMaxScaler_fit_transform cols = Inr out"
  shows "list_all (\<lambda>ys. length ys = n) out"
  unfolding list_all_iff
  using MinMaxScaler_lengths [OF assms(2)] assms(1) by (auto simp: list_all_iff)

text \<open>
  C7. Let all columns of the tables \<open>t\<close> and \<open>u\<close> have \<open>n\<close> rows. Every stage that returns a
  table on \<open>t\<close> (imputation of the numeric and of the categorical columns, one-hot
  encoding, integer coding, normalization, the combined feature matrix, reduction,
  \<^verbatim>\<open>preprocess_data\<close> as a whole, the two score calculators writing to \<open>u\<close>, the chain up to
  the scores, clustering) returns a table whose columns all have \<open>n\<close> rows. Row order is
  preserved: for every rearrangement \<open>p\<close> of the rows, under which the fitted reduction does
  not change, each stage up to the scores maps the reordered table to the reordered
  output, so row \<open>i\<close> of every derived table belongs to the respondent of row \<open>i\<close> of the
  input. (The clusterer computes one cluster id per row; on the tables of the score
  calculators it then raises, see C1.)
\<close>

theorem rows_preserved:
  assumes "row_order p n" and "\<And>X. pca (reorder p X) = pca X"
    and "aligned n t" and "aligned n u"
  shows "(\<forall>d. impute_numeric t = Inr d \<longrightarrow>
            aligned n d \<and> impute_numeric (reorder_rows p t) = Inr (reorder_rows p d))
       \<and> (\<forall>d. impute_categorical t = Inr d \<longrightarrow>
            aligned n d \<and> impute_categorical (reorder_rows p t) = Inr (reorder_rows p d))
       \<and> aligned n (get_dummies (select_object t))
       \<and> get_dummies (select_object (reorder_rows p t)) = reorder_rows p (get_dummies (select_object t))
       \<and> (\<forall>cols d. encode_columns t cols = Inr d \<longrightarrow>
            aligned n d \<and> encode_columns (reorder_rows p t) cols = Inr (reorder_rows p d))
       \<and> (\<forall>cols out. list_all (\<lambda>c. col_len c = n) cols \<and> MinMaxScaler_fit_transform cols = Inr out \<longrightarrow>
            list_all (\<lambda>ys. length ys = n) out
            \<and> MinMaxScaler_fit_transform (map (reorder_col p) cols) = Inr (map (reorder p) out))
       \<and> (\<forall>d c. processed_features t = Inr (d, c) \<longrightarrow>
            aligned n d \<and> aligned n c
            \<and> processed_features (reorder_rows p t) = Inr (reorder_rows p d, reorder_rows p c))
       \<and> (\<forall>r. PCA_fit_transform pca t = Inr r \<longrightarrow>
            aligned n r \<and> PCA_fit_transform pca (reorder_rows p t) = Inr (reorder_rows p r))
       \<and> (\<forall>d r. preprocess_data pca t = Inr (d, r) \<longrightarrow>
            aligned n d \<and> aligned n r
            \<and> preprocess_data pca (reorder_rows p t) = Inr (reorder_rows p d, reorder_rows p r))
       \<and> (\<forall>r. calculate_financial_engagement_score t u = Inr r \<longrightarrow>
            aligned n r
            \<and> calculate_financial_engagement_score (reorder_rows p t) (reorder_rows p u) = Inr (reorder_rows p r))
       \<and> (\<forall>r. calculate_financial_literacy_score t u = Inr r \<longrightarrow>
            aligned n r
            \<and> calculate_financial_literacy_score (reorder_rows p t) (reorder_rows p u) = Inr (reorder_rows p r))
       \<and> (\<forall>r. scored pca t = Inr r \<longrightarrow>
            aligned n r \<and> nrows r = n \<and> nrows t = n
            \<and> scored pca (reorder_rows p t) = Inr (reorder_rows p r))
       \<and> (\<forall>km labels. KMeans_fit_predict lloyd t = Inr (km, labels) \<longrightarrow> length labels = n)
       \<and> (\<forall>r. cluster_financial_exclusion lloyd t = Inr r \<longrightarrow> aligned n r)"
proof -
  have c1: "\<forall>d. impute_numeric t = Inr d \<longrightarrow>
            aligned n d \<and> impute_numeric (reorder_rows p t) = Inr (reorder_rows p d)"
    using impute_numeric_aligned [OF assms(3)] impute_numeric_reorder [OF assms(1,3)] by simp
  have c2: "\<forall>d. impute_categorical t = Inr d \<longrightarrow>
            aligned n d \<and> impute_categorical (reorder_rows p t) = Inr (reorder_rows p d)"
    using impute_categorical_aligned [OF assms(3)] impute_categorical_reorder [OF assms(1,3)] by simp
  have c3: "aligned n (get_dummies (select_object t))"
    by (rule get_dummies_aligned) (rule select_object_length [OF assms(3)])
  have c4: "get_dummies (select_object (reorder_rows p t)) = reorder_rows p (get_dummies (select_object t))"
    unfolding select_object_reorder
    by (rule get_dummies_reorder [OF assms(1)]) (rule select_object_length [OF assms(3)])
  have c5: "\<forall>cols d. encode_columns t cols = Inr d \<longrightarrow>
            aligned n d \<and> encode_columns (reorder_rows p t) cols = Inr (reorder_rows p d)"
    using encode_columns_aligned [OF assms(3)] encode_columns_reorder [OF assms(1,3)] by simp
  have c6: "\<forall>cols out. list_all (\<lambda>c. col_len c = n) cols \<and> MinMaxScaler_fit_transform cols = Inr out \<longrightarrow>
            list_all (\<lambda>ys. length ys = n) out
            \<and> MinMaxScaler_fit_transform (map (reorder_col p) cols) = Inr (map (reorder p) out)"
  proof (intro allI impI, elim conjE)
    fix cols out
    assume a: "list_all (\<lambda>c. col_len c = n) cols" and b: "MinMaxScaler_fit_transform cols = Inr out"
    have "col_len c = n" if "c \<in> set cols" for c
      using a that by (simp add: list_all_iff)
    then have "MinMaxScaler_fit_transform (map (reorder_col p) cols)
        = map_sum id (map (reorder p)) (MinMaxScaler_fit_transform cols)"
      by (rule MinMaxScaler_reorder [OF assms(1)])
    then show "list_all (\<lambda>ys. length ys = n) out
        \<and> MinMaxScaler_fit_transform (map (reorder_col p) cols) = Inr (map (reorder p) out)"
      using MinMaxScaler_all_lengths [OF a b] b by simp
  qed
  have c7: "\<forall>d c. processed_features t = Inr (d, c) \<longrightarrow>
            aligned n d \<and> aligned n c
            \<and> processed_features (reorder_rows p t) = Inr (reorder_rows p d, reorder_rows p c)"
    using processed_features_aligned [OF assms(3)] processed_features_reorder [OF assms(1,3)] by simp
  have c8: "\<forall>r. PCA_fit_transform pca t = Inr r \<longrightarrow>
            aligned n r \<and> PCA_fit_transform pca (reorder_rows p t) = Inr (reorder_rows p r)"
    using PCA_fit_transform_aligned [OF assms(3)]
      PCA_fit_transform_reorder [where pca = pca, OF assms(1,3,2)] by simp
  have c9: "\<forall>d r. preprocess_data pca t = Inr (d, r) \<longrightarrow>
            aligned n d \<and> aligned n r
            \<and> preprocess_data pca (reorder_rows p t) = Inr (reorder_rows p d, reorder_rows p r)"
    using preprocess_data_aligned [OF assms(3)]
      preprocess_data_reorder [where pca = pca, OF assms(1,3,2)] by simp
  have c10: "\<forall>r. calculate_financial_engagement_score t u = Inr r \<longrightarrow>
            aligned n r
            \<and> calculate_financial_engagement_score (reorder_rows p t) (reorder_rows p u) = Inr (reorder_rows p r)"
    using engagement_aligned [OF assms(3,4)] engagement_reorder [OF assms(1,3,4)] by simp
  have c11: "\<forall>r. calculate_financial_literacy_score t u = Inr r \<longrightarrow>
            aligned n r
            \<and> calculate_financial_literacy_score (reorder_rows p t) (reorder_rows p u) = Inr (reorder_rows p r)"
    using literacy_aligned_any [OF assms(3,4)] literacy_reorder [OF assms(1,3,4)] by simp
  have c12: "\<forall>r. scored pca t = Inr r \<longrightarrow>
            aligned n r \<and> nrows r = n \<and> nrows t = n
            \<and> scored pca (reorder_rows p t) = Inr (reorder_rows p r)"
    using scored_aligned [OF assms(3)] scored_reorder [where pca = pca, OF assms(1,3,2)] by simp
  have c13: "\<forall>km labels. KMeans_fit_predict lloyd t = Inr (km, labels) \<longrightarrow> length labels = n"
    using KMeans_labels_length [OF assms(3)] by blast
  have c14: "\<forall>r. cluster_financial_exclusion lloyd t = Inr r \<longrightarrow> aligned n r"
    using cluster_aligned [OF assms(3)] by blast
  show ?thesis
    using c1 c2 c3 c4 c5 c6 c7 c8 c9 c10 c11 c12 c13 c14 by (intro conjI)
qed

lemma three_respondents_scored:
  "scored first_axis three_respondents =
     Inr [(''PC1'', FloatCol [Some 0, Some (1/2), Some 1]),
          (''financial_engagement_score'', FloatCol [Some (2/5), Some (3/10), Some (4/5)]),
          (''financial_literacy_score'', FloatCol [Some 0, Some 1, Some (1/5)])]"
  by (simp add: three_respondents_def first_axis_def scored_def preprocess_data_def
    processed_features_def numeric_columns_def categorical_columns_def
    impute_numeric_def impute_categorical_def SimpleImputer_median_def SimpleImputer_most_frequent_def
    impute_median_def impute_most_frequent_def median_def most_frequent_def fillna_def setitems_def assign_def
    get_dummies_def dummies_def categories_def high_cardinality_columns_def getitem_def setitem_def
    codes_def combine_features_def getitems_def MinMaxScaler_fit_transform_def minmax_fit_transform_def
    minmax_fit_def minmax_transform_def handle_zeros_in_scale_def Let_def
    PCA_fit_transform_def finite_values_def rows_of_def project_def dot_def string_of_nat.simps
    calculate_financial_engagement_score_def calculate_financial_literacy_score_def
    transaction_cols_def savings_cols_def lower_def lower_char_def row_mean_def weighted_def
    education_mapping_def upt_rec [of 0] upt_rec [of "Suc _"])

theorem rows_preserved_witness:
  "scored first_axis (reorder_rows [2, 0, 1] three_respondents) =
     Inr [(''PC1'', FloatCol [Some 1, Some 0, Some (1/2)]),
          (''financial_engagement_score'', FloatCol [Some (4/5), Some (2/5), Some (3/10)]),
          (''financial_literacy_score'', FloatCol [Some (1/5), Some 0, Some 1])]
   \<and> nrows three_respondents = 3"
proof -
  have p: "row_order [2, 0, 1] 3"
    by (simp add: row_order_def upt_rec [of 0] upt_rec [of "Suc _"])
  have inv: "first_axis (reorder [2, 0, 1] X) = first_axis X" for X
    by (simp add: first_axis_def)
  have a: "aligned 3 three_respondents"
    by (simp add: three_respondents_def aligned_def)
  have b: "aligned 3 []"
    by simp
  have "scored first_axis (reorder_rows [2, 0, 1] three_respondents)
      = Inr (reorder_rows [2, 0, 1]
          [(''PC1'', FloatCol [Some 0, Some (1/2), Some 1]),
           (''financial_engagement_score'', FloatCol [Some (2/5), Some (3/10), Some (4/5)]),
           (''financial_literacy_score'', FloatCol [Some 0, Some 1, Some (1/5)])])
      \<and> nrows three_respondents = 3"
    using rows_preserved [where pca = first_axis, OF p inv a b] three_respondents_scored by blast
  then show ?thesis
    by (simp add: reorder_rows_def reorder_def)
qed

subsection \<open>The pipeline as a whole\<close>

text \<open>
  The table that the score calculators produce has the columns \<^verbatim>\<open>PC1\<close>, \<^verbatim>\<open>PC2\<close>, ... and
  the two scores, and no column \<^verbatim>\<open>exclusion_cluster\<close>: every run of the notebook's cells
  ends in an exception, in the clusterer at the latest.
\<close>

lemma PCA_fit_transform_names:
  assumes "PCA_fit_transform pca df = Inr p" "name \<in> set (map fst p)"
  shows "\<exists>s. name = ''PC'' @ s"
  using assms
  by (auto simp: PCA_fit_transform_def Let_def split: if_splits sum.splits)

lemma setitem_names:
  assumes "setitem df name c = Inr df'"
  shows "set (map fst df') = insert name (set (map fst df))"
proof -
  have "df' = assign df name c"
    using assms by (simp add: setitem_def split: if_splits)
  then show ?thesis by (simp only: assign_names)
qed

lemma engagement_names:
  assumes "calculate_financial_engagement_score data p = Inr p'"
  shows "set (map fst p') = insert ''financial_engagement_score'' (set (map fst p))"
proof -
  from assms obtain c where "setitem p ''financial_engagement_score'' c = Inr p'"
    unfolding calculate_financial_engagement_score_def
    by (auto split: sum.splits dest!: setitem_upt_column)
  then show ?thesis by (rule setitem_names)
qed

lemma literacy_names:
  assumes "calculate_financial_literacy_score data p = Inr p'"
  shows "set (map fst p') = insert ''financial_literacy_score'' (set (map fst p))"
proof -
  from assms obtain c where "setitem p ''financial_literacy_score'' c = Inr p'"
    by (auto simp: calculate_financial_literacy_score_def split: sum.splits)
  then show ?thesis by (rule setitem_names)
qed

lemma scored_names:
  assumes "scored pca raw_data = Inr processed_data"
  shows "''exclusion_cluster'' \<notin> set (map fst processed_data)"
proof -
  from assms obtain d p0 p1 where pre: "preprocess_data pca raw_data = Inr (d, p0)"
    and en: "calculate_financial_engagement_score d p0 = Inr p1"
    and li: "calculate_financial_literacy_score d p1 = Inr processed_data"
    by (auto simp: scored_def split: sum.splits)
  from pre obtain combined where "PCA_fit_transform pca combined = Inr p0"
    by (auto simp: preprocess_data_def split: sum.splits)
  then have "''exclusion_cluster'' \<notin> set (map fst p0)"
    using PCA_fit_transform_names by fastforce
  then show ?thesis
    unfolding literacy_names [OF li] engagement_names [OF en] by simp
qed

lemma pipeline_raises: "\<exists>e. pipeline pca lloyd raw_data = Inl e"
proof (cases "scored pca raw_data")
  case (Inl e)
  then show ?thesis by (simp add: pipeline_def)
next
  case (Inr processed_data)
  then show ?thesis
    using requery_raises [OF scored_names [OF Inr], of lloyd] by (simp add: pipeline_def)
qed

end
